theory Spec2Isabelle
  imports Main "HOL-Library.Word"
begin

text \<open>
  The survey draft builder of the backoffice: the state of \<open>CreateSurveyPage\<close>
  (\<open>src/pages/CreateSurveyPage.tsx\<close>), the handlers that edit the draft of a survey, its
  questions and their options, the submission of the draft to the backend through
  \<open>surveyApi\<close>, \<open>questionApi\<close> and \<open>optionApi\<close>, and \<open>parseApiError\<close> of the API
  service. The definitions follow the source function by function; what the browser and the
  backend decide (the ids of \<open>uniqueId\<close>, the answers to the create calls, the conversion
  of the expiry date) is a parameter.
\<close>

section \<open>JavaScript strings\<close>

text \<open>
  A JavaScript string is a sequence of UTF-16 code units. String literals of the source
  are written with \<open>js\<close> for their ASCII runs, the other code units are spliced in
  as numbers (\<open>0xE7\<close> is c-cedilla, \<open>0x2013\<close> the en dash).
\<close>

type_synonym jsstring = "16 word list"

definition js :: "string \<Rightarrow> jsstring" where
  "js s = map of_char s"

text \<open>
  \<open>String.prototype.trim\<close> removes the code units of ECMAScript's WhiteSpace and
  LineTerminator productions from both ends.
\<close>

definition isWhiteSpace :: "16 word \<Rightarrow> bool" where
  "isWhiteSpace c \<longleftrightarrow>
     c = 0x9 \<or> c = 0xA \<or> c = 0xB \<or> c = 0xC \<or> c = 0xD \<or> c = 0x20 \<or> c = 0xA0 \<or>
     c = 0x1680 \<or> (0x2000 \<le> c \<and> c \<le> 0x200A) \<or> c = 0x2028 \<or> c = 0x2029 \<or>
     c = 0x202F \<or> c = 0x205F \<or> c = 0x3000 \<or> c = 0xFEFF"

definition trim :: "jsstring \<Rightarrow> jsstring" where
  "trim s = rev (dropWhile isWhiteSpace (rev (dropWhile isWhiteSpace s)))"

text \<open>The decimal digits of a natural number, as a template literal prints it.\<close>

fun numberToString :: "nat \<Rightarrow> jsstring" where
  "numberToString n =
     (if n < 10 then [0x30 + of_nat n]
      else numberToString (n div 10) @ [0x30 + of_nat (n mod 10)])"

text \<open>\<open>a || b\<close> on an optional string: \<open>undefined\<close> and \<open>''\<close> are falsy.\<close>

definition or_else :: "jsstring option \<Rightarrow> jsstring \<Rightarrow> jsstring" where
  "or_else a b = (case a of None \<Rightarrow> b | Some v \<Rightarrow> if v = [] then b else v)"

fun join :: "jsstring \<Rightarrow> jsstring list \<Rightarrow> jsstring" where
  "join sep [] = []"
| "join sep [x] = x"
| "join sep (x # y # ys) = x @ sep @ join sep (y # ys)"

section \<open>The draft: CreateSurveyPage.tsx\<close>

text \<open>
  The fields of \<open>DraftOption\<close> and \<open>DraftQuestion\<close> carry the prefixes \<open>o_\<close> and
  \<open>q_\<close> (both types have an \<open>id\<close> and a \<open>texto\<close>). \<open>ordem\<close> is a JavaScript
  number; the page only ever compares and forwards it, and it is an integer here.
\<close>

record DraftOption =
  o_id :: jsstring
  o_texto :: jsstring
  o_ativo :: bool

record DraftQuestion =
  q_id :: jsstring
  q_texto :: jsstring
  q_ordem :: int
  q_options :: "DraftOption list"

definition MAX_ACTIVE_OPTIONS :: nat where
  "MAX_ACTIVE_OPTIONS = 5"

text \<open>
  \<open>uniqueId()\<close> asks the host for a random UUID. The host is a parameter: \<open>gen k\<close> is
  the answer to the \<open>k\<close>-th call, and the number of calls made so far is threaded
  through every function that calls it.
\<close>

type_synonym id_source = "nat \<Rightarrow> jsstring"

definition uniqueId :: "id_source \<Rightarrow> nat \<Rightarrow> jsstring \<times> nat" where
  "uniqueId gen n = (gen n, Suc n)"

definition createOptionDraft :: "id_source \<Rightarrow> bool \<Rightarrow> nat \<Rightarrow> DraftOption \<times> nat" where
  "createOptionDraft gen ativo n =
     (case uniqueId gen n of (i, n1) \<Rightarrow> (\<lparr>o_id = i, o_texto = [], o_ativo = ativo\<rparr>, n1))"

definition createQuestionDraft :: "id_source \<Rightarrow> int \<Rightarrow> nat \<Rightarrow> DraftQuestion \<times> nat" where
  "createQuestionDraft gen ordem n =
     (case uniqueId gen n of (i, n0) \<Rightarrow>
      case createOptionDraft gen True n0 of (o1, n1) \<Rightarrow>
      case createOptionDraft gen True n1 of (o2, n2) \<Rightarrow>
      case createOptionDraft gen True n2 of (o3, n3) \<Rightarrow>
      case createOptionDraft gen True n3 of (o4, n4) \<Rightarrow>
      case createOptionDraft gen True n4 of (o5, n5) \<Rightarrow>
        (\<lparr>q_id = i, q_texto = [], q_ordem = ordem, q_options = [o1, o2, o3, o4, o5]\<rparr>, n5))"

definition countActiveOptions :: "DraftOption list \<Rightarrow> nat" where
  "countActiveOptions options = length (filter o_ativo options)"

definition TEMPLATE_TITLE :: jsstring where
  "TEMPLATE_TITLE =
     js ''Satisfa'' @ [0xE7, 0xE3] @ js ''o dos Clientes '' @ [0x2013] @ js '' Rede de Supermercados''"

definition TEMPLATE_DESCRIPTION :: jsstring where
  "TEMPLATE_DESCRIPTION =
     js ''Esta pesquisa tem como objetivo avaliar a satisfa'' @ [0xE7, 0xE3] @
     js ''o dos clientes em diferentes '' @ [0xE1] @
     js ''reas dos supermercados. Selecione o supermercado que melhor representa sua opini'' @
     [0xE3] @ js ''o para cada item.''"

definition TEMPLATE_OPTIONS :: "jsstring list" where
  "TEMPLATE_OPTIONS =
    [js ''Supermercado NovaVida'',
     js ''Supermercado Pre'' @ [0xE7] @ js ''oBom'',
     js ''Supermercado Econ'' @ [0xF4] @ js ''mico+'',
     js ''Supermercado Fam'' @ [0xED] @ js ''liaMax'',
     js ''Supermercado UltraMarket'']"

definition TEMPLATE_QUESTIONS :: "jsstring list" where
  "TEMPLATE_QUESTIONS =
    [js ''Qual supermercado voc'' @ [0xEA] @ js '' considera mais organizado e limpo nas '' @
       [0xE1] @ js ''reas internas?'',
     js ''Qual supermercado oferece a melhor limpeza e higieniza'' @ [0xE7, 0xE3] @
       js ''o dos banheiros?'',
     js ''Qual supermercado tem o melhor estacionamento em termos de espa'' @ [0xE7] @
       js ''o, acesso e vagas dispon'' @ [0xED] @ js ''veis?'',
     js ''Qual supermercado possui a garagem mais segura e bem organizada?'',
     js ''Em qual supermercado o setor de hortifr'' @ [0xFA] @
       js ''ti oferece melhor qualidade e apresenta'' @ [0xE7, 0xE3] @ js ''o dos produtos?'',
     js ''Qual supermercado oferece o melhor atendimento no setor de a'' @ [0xE7] @
       js ''ougue?'',
     js ''Qual supermercado possui a melhor organiza'' @ [0xE7, 0xE3] @ js ''o nas g'' @
       [0xF4] @ js ''ndolas e prateleiras?'',
     js ''Em qual supermercado voc'' @ [0xEA] @ js '' encontra filas mais r'' @ [0xE1] @
       js ''pidas e caixas mais eficientes?'',
     js ''Em qual supermercado voc'' @ [0xEA] @ js '' percebe maior variedade de produtos?'',
     js ''Qual supermercado voc'' @ [0xEA] @
       js '' considera, no geral, o melhor para fazer compras?'']"

subsection \<open>The component's state\<close>

text \<open>
  The nine \<open>useState\<close> cells of \<open>CreateSurveyPage\<close>, and two cells for what the page does
  to its surroundings: \<open>uid_calls\<close> counts the calls of \<open>uniqueId\<close>, \<open>navigated\<close>
  holds the id of the survey whose page the last \<open>navigate\<close> opened.
\<close>

record page =
  titulo :: jsstring
  descricao :: jsstring
  ativo :: bool
  dataValidade :: jsstring
  questions :: "DraftQuestion list"
  error :: "jsstring option"
  isSaving :: bool
  success :: "jsstring option"
  selectedTemplate :: jsstring
  uid_calls :: nat
  navigated :: "int option"

text \<open>The state after the first render, when \<open>uniqueId\<close> has been called \<open>n\<close> times before.\<close>

definition initial_page :: "id_source \<Rightarrow> nat \<Rightarrow> page" where
  "initial_page gen n =
     (case createQuestionDraft gen 1 n of (q, n1) \<Rightarrow>
        \<lparr>titulo = [], descricao = [], ativo = True, dataValidade = [], questions = [q],
         error = None, isSaving = False, success = None, selectedTemplate = [],
         uid_calls = n1, navigated = None\<rparr>)"

text \<open>
  \<open>Array.prototype.map\<close> with a callback that also calls \<open>setError\<close> or \<open>uniqueId\<close>:
  the callback takes the state and returns it, and the elements are visited from left to
  right.
\<close>

fun map_st :: "('a \<Rightarrow> 's \<Rightarrow> 'b \<times> 's) \<Rightarrow> 'a list \<Rightarrow> 's \<Rightarrow> 'b list \<times> 's" where
  "map_st f [] s = ([], s)"
| "map_st f (x # xs) s =
     (case f x s of (y, s1) \<Rightarrow> case map_st f xs s1 of (ys, s2) \<Rightarrow> (y # ys, s2))"

subsection \<open>Draft mutations\<close>

definition handleAddQuestion :: "id_source \<Rightarrow> page \<Rightarrow> page" where
  "handleAddQuestion gen s =
     (case createQuestionDraft gen (int (length (questions s)) + 1) (uid_calls s) of
        (q, n) \<Rightarrow> s\<lparr>questions := questions s @ [q], uid_calls := n\<rparr>)"

definition handleRemoveQuestion :: "jsstring \<Rightarrow> page \<Rightarrow> page" where
  "handleRemoveQuestion i s =
     (let filtered = filter (\<lambda>question. q_id question \<noteq> i) (questions s)
      in s\<lparr>questions := (if length filtered \<noteq> 0 then filtered else questions s)\<rparr>)"

text \<open>
  \<open>Partial<DraftQuestion>\<close> and \<open>Partial<DraftOption>\<close>: a field that is present is
  \<open>Some\<close>. \<open>{ ...x, ...updates }\<close> takes every present field from \<open>updates\<close>.
\<close>

record DraftQuestion_updates =
  uq_id :: "jsstring option"
  uq_texto :: "jsstring option"
  uq_ordem :: "int option"
  uq_options :: "DraftOption list option"

record DraftOption_updates =
  uo_id :: "jsstring option"
  uo_texto :: "jsstring option"
  uo_ativo :: "bool option"

definition spread_question :: "DraftQuestion \<Rightarrow> DraftQuestion_updates \<Rightarrow> DraftQuestion" where
  "spread_question question updates =
     \<lparr>q_id = (case uq_id updates of Some v \<Rightarrow> v | None \<Rightarrow> q_id question),
      q_texto = (case uq_texto updates of Some v \<Rightarrow> v | None \<Rightarrow> q_texto question),
      q_ordem = (case uq_ordem updates of Some v \<Rightarrow> v | None \<Rightarrow> q_ordem question),
      q_options = (case uq_options updates of Some v \<Rightarrow> v | None \<Rightarrow> q_options question)\<rparr>"

definition spread_option :: "DraftOption \<Rightarrow> DraftOption_updates \<Rightarrow> DraftOption" where
  "spread_option option updates =
     \<lparr>o_id = (case uo_id updates of Some v \<Rightarrow> v | None \<Rightarrow> o_id option),
      o_texto = (case uo_texto updates of Some v \<Rightarrow> v | None \<Rightarrow> o_texto option),
      o_ativo = (case uo_ativo updates of Some v \<Rightarrow> v | None \<Rightarrow> o_ativo option)\<rparr>"

definition updateQuestion :: "jsstring \<Rightarrow> DraftQuestion_updates \<Rightarrow> page \<Rightarrow> page" where
  "updateQuestion i updates s =
     s\<lparr>questions :=
         map (\<lambda>question. if q_id question = i then spread_question question updates else question)
           (questions s)\<rparr>"

definition MSG_ADD_INACTIVE :: jsstring where
  "MSG_ADD_INACTIVE =
     js ''M'' @ [0xE1] @ js ''ximo de '' @ numberToString MAX_ACTIVE_OPTIONS @ js '' op'' @
     [0xE7, 0xF5] @ js ''es ativas por pergunta. A nova op'' @ [0xE7, 0xE3] @
     js ''o foi criada como inativa.''"

definition MSG_DEACTIVATE_FIRST :: jsstring where
  "MSG_DEACTIVATE_FIRST =
     js ''M'' @ [0xE1] @ js ''ximo de '' @ numberToString MAX_ACTIVE_OPTIONS @ js '' op'' @
     [0xE7, 0xF5] @ js ''es ativas por pergunta. Desative uma op'' @ [0xE7, 0xE3] @
     js ''o antes de ativar outra.''"

text \<open>The callback of \<open>prev.map\<close> in \<open>handleAddOption\<close>.\<close>

definition addOption_question :: "id_source \<Rightarrow> jsstring \<Rightarrow> DraftQuestion \<Rightarrow> page \<Rightarrow> DraftQuestion \<times> page" where
  "addOption_question gen questionId question s =
     (if q_id question \<noteq> questionId then (question, s)
      else
        let activeCount = countActiveOptions (q_options question);
            reachedLimit = (activeCount \<ge> MAX_ACTIVE_OPTIONS);
            s1 = (if reachedLimit then s\<lparr>error := Some MSG_ADD_INACTIVE\<rparr> else s)
        in case createOptionDraft gen (\<not> reachedLimit) (uid_calls s1) of
             (newOption, n) \<Rightarrow>
               (question\<lparr>q_options := q_options question @ [newOption]\<rparr>, s1\<lparr>uid_calls := n\<rparr>))"

definition handleAddOption :: "id_source \<Rightarrow> jsstring \<Rightarrow> page \<Rightarrow> page" where
  "handleAddOption gen questionId s =
     (case map_st (addOption_question gen questionId) (questions s) s of
        (qs, s1) \<Rightarrow> s1\<lparr>questions := qs\<rparr>)"

definition handleRemoveOption :: "jsstring \<Rightarrow> jsstring \<Rightarrow> page \<Rightarrow> page" where
  "handleRemoveOption questionId optionId s =
     s\<lparr>questions :=
         map (\<lambda>question.
                if q_id question = questionId
                then question\<lparr>q_options :=
                       (if length (q_options question) > 1
                        then filter (\<lambda>option. o_id option \<noteq> optionId) (q_options question)
                        else q_options question)\<rparr>
                else question)
           (questions s)\<rparr>"

text \<open>The callback of \<open>prev.map\<close> in \<open>updateOption\<close>.\<close>

definition updateOption_question ::
  "jsstring \<Rightarrow> jsstring \<Rightarrow> DraftOption_updates \<Rightarrow> DraftQuestion \<Rightarrow> page \<Rightarrow> DraftQuestion \<times> page" where
  "updateOption_question questionId optionId updates question s =
     (if q_id question \<noteq> questionId then (question, s)
      else case find (\<lambda>option. o_id option = optionId) (q_options question) of
        None \<Rightarrow> (question, s)
      | Some targetOption \<Rightarrow>
          let activeCount = countActiveOptions (q_options question);
              willActivate = (uo_ativo updates = Some True \<and> \<not> o_ativo targetOption)
          in if willActivate \<and> activeCount \<ge> MAX_ACTIVE_OPTIONS
             then (question, s\<lparr>error := Some MSG_DEACTIVATE_FIRST\<rparr>)
             else (question\<lparr>q_options :=
                     map (\<lambda>option. if o_id option = optionId then spread_option option updates
                                    else option)
                       (q_options question)\<rparr>, s))"

definition updateOption :: "jsstring \<Rightarrow> jsstring \<Rightarrow> DraftOption_updates \<Rightarrow> page \<Rightarrow> page" where
  "updateOption questionId optionId updates s =
     (case map_st (updateOption_question questionId optionId updates) (questions s) s of
        (qs, s1) \<Rightarrow> s1\<lparr>questions := qs\<rparr>)"

text \<open>The \<open>onChange\<close> handler of the template \<open>select\<close>.\<close>

definition template_option :: "id_source \<Rightarrow> jsstring \<Rightarrow> nat \<Rightarrow> DraftOption \<times> nat" where
  "template_option gen optionTexto n =
     (case uniqueId gen n of (i, n1) \<Rightarrow> (\<lparr>o_id = i, o_texto = optionTexto, o_ativo = True\<rparr>, n1))"

definition template_question :: "id_source \<Rightarrow> jsstring \<times> nat \<Rightarrow> nat \<Rightarrow> DraftQuestion \<times> nat" where
  "template_question gen ti n =
     (case ti of (texto, index) \<Rightarrow>
      case uniqueId gen n of (i, n0) \<Rightarrow>
      case map_st (template_option gen) TEMPLATE_OPTIONS n0 of (os, n1) \<Rightarrow>
        (\<lparr>q_id = i, q_texto = texto, q_ordem = int index + 1, q_options = os\<rparr>, n1))"

definition builtQuestions :: "id_source \<Rightarrow> nat \<Rightarrow> DraftQuestion list \<times> nat" where
  "builtQuestions gen n =
     map_st (template_question gen) (zip TEMPLATE_QUESTIONS [0 ..< length TEMPLATE_QUESTIONS]) n"

definition template_onChange :: "id_source \<Rightarrow> jsstring \<Rightarrow> page \<Rightarrow> page" where
  "template_onChange gen v s =
     (let s1 = s\<lparr>selectedTemplate := v\<rparr>
      in if v = js ''supermarkets''
         then case builtQuestions gen (uid_calls s1) of
                (qs, n) \<Rightarrow>
                  s1\<lparr>titulo := TEMPLATE_TITLE, descricao := TEMPLATE_DESCRIPTION, ativo := True,
                     questions := qs, error := None, success := None, uid_calls := n\<rparr>
         else s1)"

text \<open>The \<open>onClick\<close> handler of the button \<open>Limpar\<close>.\<close>

definition limpar_onClick :: "id_source \<Rightarrow> page \<Rightarrow> page" where
  "limpar_onClick gen s =
     (case createQuestionDraft gen 1 (uid_calls s) of
        (q, n) \<Rightarrow>
          s\<lparr>titulo := [], descricao := [], ativo := True, dataValidade := [], questions := [q],
            selectedTemplate := [], error := None, success := None, uid_calls := n\<rparr>)"

subsection \<open>Submission\<close>

text \<open>
  What a create call can throw, as far as \<open>parseApiError\<close> looks at it: an Axios error
  with its optional response (status and body) and code, another \<open>Error\<close> with its
  message, or any other value. \<open>a_errors\<close> is \<open>Object.values(data.errors)\<close>.
\<close>

record ApiError =
  a_message :: "jsstring option"
  a_errors :: "jsstring list option"

record axios_response =
  r_status :: int
  r_data :: "ApiError option"

datatype thrown =
    AxiosError "axios_response option" "jsstring option"
  | JsError jsstring
  | NotAnError

fun parseApiError :: "thrown \<Rightarrow> jsstring" where
  "parseApiError (AxiosError response code) =
     (let data = (case response of None \<Rightarrow> None | Some r \<Rightarrow> r_data r);
          status = map_option r_status response;
          message = (case data of None \<Rightarrow> None | Some d \<Rightarrow> a_message d);
          errors = (case data of None \<Rightarrow> None | Some d \<Rightarrow> a_errors d)
      in if status = Some 401 then or_else message (js ''Credenciais inv'' @ [0xE1] @ js ''lidas.'')
         else if status = Some 403
         then or_else message
                (js ''Voc'' @ [0xEA] @ js '' n'' @ [0xE3] @ js ''o tem permiss'' @ [0xE3] @
                 js ''o para executar esta a'' @ [0xE7, 0xE3] @ js ''o.'')
         else if or_else message [] \<noteq> []
         then (case errors of
                 Some es \<Rightarrow> or_else message [] @ js '': '' @ join (js '', '') es
               | None \<Rightarrow> or_else message [])
         else if response = None
         then (if code = Some (js ''ECONNABORTED'')
               then js ''A requisi'' @ [0xE7, 0xE3] @
                    js ''o demorou para responder. Tente novamente em instantes.''
               else js ''N'' @ [0xE3] @ js ''o foi poss'' @ [0xED] @
                    js ''vel conectar ao servidor. Verifique sua conex'' @ [0xE3] @
                    js ''o e tente novamente.'')
         else js ''Erro ao processar sua solicita'' @ [0xE7, 0xE3] @
              js ''o. Tente novamente mais tarde.'')"
| "parseApiError (JsError message) = or_else (Some message) (js ''Erro inesperado. Tente novamente.'')"
| "parseApiError NotAnError = js ''Erro inesperado. Tente novamente.''"

record CreateSurveyPayload =
  sp_titulo :: jsstring
  sp_descricao :: "jsstring option"
  sp_ativo :: bool
  sp_dataValidade :: "jsstring option"

record CreateQuestionPayload =
  qp_texto :: jsstring
  qp_ordem :: int
  qp_surveyId :: int

record CreateOptionPayload =
  op_texto :: jsstring
  op_ativo :: bool
  op_questionId :: int

text \<open>
  The calls of \<open>surveyApi\<close>, \<open>questionApi\<close> and \<open>optionApi\<close> that write. The backend is a
  parameter: it answers a call, given the exchanges so far, with the created entity, of
  which \<open>handleSubmit\<close> reads the \<open>id\<close> only, or with what the call throws.
\<close>

datatype api_call =
    SurveyCreate CreateSurveyPayload
  | QuestionCreate CreateQuestionPayload
  | OptionCreate CreateOptionPayload
  | SurveyUpdate int CreateSurveyPayload
  | SurveyRemove int
  | QuestionRemove int
  | OptionRemove int

type_synonym exchange = "api_call \<times> (thrown + int)"

type_synonym backend = "exchange list \<Rightarrow> api_call \<Rightarrow> thrown + int"

text \<open>The inner \<open>for\<close> loop of \<open>handleSubmit\<close>; \<open>Inl\<close> is a call that threw.\<close>

fun submit_options :: "backend \<Rightarrow> int \<Rightarrow> DraftOption list \<Rightarrow> exchange list \<Rightarrow> exchange list \<times> (thrown + unit)" where
  "submit_options be questionId [] log = (log, Inr ())"
| "submit_options be questionId (option # rest) log =
     (if trim (o_texto option) = [] then submit_options be questionId rest log
      else
        let c = OptionCreate \<lparr>op_texto = trim (o_texto option), op_ativo = o_ativo option,
                              op_questionId = questionId\<rparr>
        in case be log c of
             Inl e \<Rightarrow> (log @ [(c, Inl e)], Inl e)
           | Inr i \<Rightarrow> submit_options be questionId rest (log @ [(c, Inr i)]))"

text \<open>The outer \<open>for\<close> loop.\<close>

fun submit_questions :: "backend \<Rightarrow> int \<Rightarrow> DraftQuestion list \<Rightarrow> exchange list \<Rightarrow> exchange list \<times> (thrown + unit)" where
  "submit_questions be surveyId [] log = (log, Inr ())"
| "submit_questions be surveyId (question # rest) log =
     (let c = QuestionCreate \<lparr>qp_texto = trim (q_texto question), qp_ordem = q_ordem question,
                              qp_surveyId = surveyId\<rparr>
      in case be log c of
           Inl e \<Rightarrow> (log @ [(c, Inl e)], Inl e)
         | Inr i \<Rightarrow>
             (case submit_options be i (q_options question) (log @ [(c, Inr i)]) of
                (log1, Inl e) \<Rightarrow> (log1, Inl e)
              | (log1, Inr u) \<Rightarrow> submit_questions be surveyId rest log1))"

text \<open>
  The body of \<open>try\<close>. \<open>new Date(dataValidade).toISOString()\<close> depends on the host's time
  zone and throws a \<open>RangeError\<close> on an invalid date: it is the parameter \<open>toISO\<close>.
\<close>

definition submit_try :: "backend \<Rightarrow> (jsstring \<Rightarrow> thrown + jsstring) \<Rightarrow> page \<Rightarrow> exchange list \<times> (thrown + int)" where
  "submit_try be toISO s =
     (case (if dataValidade s \<noteq> [] then map_sum (\<lambda>e. e) Some (toISO (dataValidade s))
            else Inr None) of
        Inl e \<Rightarrow> ([], Inl e)
      | Inr dv \<Rightarrow>
          let c = SurveyCreate
                    \<lparr>sp_titulo = trim (titulo s),
                     sp_descricao = (if trim (descricao s) \<noteq> [] then Some (trim (descricao s))
                                     else None),
                     sp_ativo = ativo s, sp_dataValidade = dv\<rparr>
          in (case be [] c of
                Inl e \<Rightarrow> ([(c, Inl e)], Inl e)
              | Inr createdSurvey \<Rightarrow>
                  (case submit_questions be createdSurvey (questions s) [(c, Inr createdSurvey)] of
                     (log, Inl e) \<Rightarrow> (log, Inl e)
                   | (log, Inr u) \<Rightarrow> (log, Inr createdSurvey))))"

definition MSG_TITLE :: jsstring where
  "MSG_TITLE = js ''Informe um t'' @ [0xED] @ js ''tulo para a pesquisa.''"

definition MSG_QUESTION_TEXT :: jsstring where
  "MSG_QUESTION_TEXT = js ''Todas as perguntas precisam de um texto.''"

definition MSG_TOO_MANY :: jsstring where
  "MSG_TOO_MANY =
     js ''Cada pergunta pode ter no m'' @ [0xE1] @ js ''ximo '' @
     numberToString MAX_ACTIVE_OPTIONS @ js '' op'' @ [0xE7, 0xF5] @ js ''es ativas.''"

definition MSG_CREATED :: jsstring where
  "MSG_CREATED = js ''Pesquisa criada com sucesso.''"

text \<open>
  \<open>handleSubmit\<close> returns the exchanges with the backend and the state after the last
  \<open>setState\<close>. It reads \<open>titulo\<close>, \<open>questions\<close> and the other cells as they were when it
  was called.
\<close>

definition handleSubmit :: "backend \<Rightarrow> (jsstring \<Rightarrow> thrown + jsstring) \<Rightarrow> page \<Rightarrow> exchange list \<times> page" where
  "handleSubmit be toISO s =
     (let s0 = s\<lparr>error := None, success := None\<rparr>
      in if trim (titulo s) = [] then ([], s0\<lparr>error := Some MSG_TITLE\<rparr>)
         else if \<not> list_all (\<lambda>question. trim (q_texto question) \<noteq> []) (questions s)
         then ([], s0\<lparr>error := Some MSG_QUESTION_TEXT\<rparr>)
         else if list_ex (\<lambda>question. countActiveOptions (q_options question) > MAX_ACTIVE_OPTIONS)
                   (questions s)
         then ([], s0\<lparr>error := Some MSG_TOO_MANY\<rparr>)
         else
           case submit_try be toISO s of
             (log, Inr createdSurvey) \<Rightarrow>
               (log, s0\<lparr>isSaving := False, success := Some MSG_CREATED,
                        navigated := Some createdSurvey\<rparr>)
           | (log, Inl err) \<Rightarrow> (log, s0\<lparr>isSaving := False, error := Some (parseApiError err)\<rparr>))"

subsection \<open>The page as a transition system\<close>

text \<open>
  One constructor for each handler the markup installs. \<open>updateQuestion\<close> and
  \<open>updateOption\<close> are local to the component; their call sites pass \<open>{ texto }\<close>,
  \<open>{ ordem }\<close>, \<open>{ texto }\<close> and \<open>{ ativo }\<close>. \<open>Render\<close> is a render of the component:
  it evaluates the argument of \<open>useState\<close>, \<open>[createQuestionDraft(1)]\<close>, and drops it.
\<close>

datatype event =
    Render
  | SetTitulo jsstring
  | SetDescricao jsstring
  | SetDataValidade jsstring
  | SetAtivo bool
  | SelectTemplate jsstring
  | Limpar
  | AddQuestion
  | RemoveQuestion jsstring
  | QuestionTexto jsstring jsstring
  | QuestionOrdem jsstring int
  | AddOption jsstring
  | RemoveOption jsstring jsstring
  | OptionTexto jsstring jsstring jsstring
  | OptionAtivo jsstring jsstring bool
  | Submit

record host =
  h_gen :: id_source
  h_backend :: backend
  h_toISO :: "jsstring \<Rightarrow> thrown + jsstring"

fun step :: "host \<Rightarrow> page \<Rightarrow> event \<Rightarrow> page" where
  "step h s Render = s\<lparr>uid_calls := snd (createQuestionDraft (h_gen h) 1 (uid_calls s))\<rparr>"
| "step h s (SetTitulo v) = s\<lparr>titulo := v\<rparr>"
| "step h s (SetDescricao v) = s\<lparr>descricao := v\<rparr>"
| "step h s (SetDataValidade v) = s\<lparr>dataValidade := v\<rparr>"
| "step h s (SetAtivo b) = s\<lparr>ativo := b\<rparr>"
| "step h s (SelectTemplate v) = template_onChange (h_gen h) v s"
| "step h s Limpar = limpar_onClick (h_gen h) s"
| "step h s AddQuestion = handleAddQuestion (h_gen h) s"
| "step h s (RemoveQuestion i) = handleRemoveQuestion i s"
| "step h s (QuestionTexto i v) =
     updateQuestion i \<lparr>uq_id = None, uq_texto = Some v, uq_ordem = None, uq_options = None\<rparr> s"
| "step h s (QuestionOrdem i v) =
     updateQuestion i \<lparr>uq_id = None, uq_texto = None, uq_ordem = Some v, uq_options = None\<rparr> s"
| "step h s (AddOption i) = handleAddOption (h_gen h) i s"
| "step h s (RemoveOption i j) = handleRemoveOption i j s"
| "step h s (OptionTexto i j v) =
     updateOption i j \<lparr>uo_id = None, uo_texto = Some v, uo_ativo = None\<rparr> s"
| "step h s (OptionAtivo i j b) =
     updateOption i j \<lparr>uo_id = None, uo_texto = None, uo_ativo = Some b\<rparr> s"
| "step h s Submit = snd (handleSubmit (h_backend h) (h_toISO h) s)"

definition run :: "host \<Rightarrow> page \<Rightarrow> event list \<Rightarrow> page" where
  "run h s evs = foldl (step h) s evs"

subsection \<open>Well-formed drafts\<close>

text \<open>
  What every draft the page can reach satisfies, as long as \<open>uniqueId\<close> never answers
  twice with the same id: within a question the option ids are pairwise distinct and were
  all generated already, at most \<open>MAX_ACTIVE_OPTIONS\<close> options are active, and there is
  an option; and the draft has a question.
\<close>

definition question_ok :: "id_source \<Rightarrow> nat \<Rightarrow> DraftQuestion \<Rightarrow> bool" where
  "question_ok gen n q \<longleftrightarrow>
     distinct (map o_id (q_options q)) \<and>
     (\<forall>opt \<in> set (q_options q). \<exists>k<n. o_id opt = gen k) \<and>
     countActiveOptions (q_options q) \<le> MAX_ACTIVE_OPTIONS \<and>
     q_options q \<noteq> []"

definition page_ok :: "id_source \<Rightarrow> page \<Rightarrow> bool" where
  "page_ok gen s \<longleftrightarrow>
     questions s \<noteq> [] \<and> (\<forall>q \<in> set (questions s). question_ok gen (uid_calls s) q)"


subsection \<open>Reading a submission\<close>

text \<open>
  The draft is what the user edits: title, description, active flag, expiry and the
  questions with their options.
\<close>

definition draft :: "page \<Rightarrow> jsstring \<times> jsstring \<times> bool \<times> jsstring \<times> DraftQuestion list" where
  "draft s = (titulo s, descricao s, ativo s, dataValidade s, questions s)"

definition submit_log :: "backend \<Rightarrow> (jsstring \<Rightarrow> thrown + jsstring) \<Rightarrow> page \<Rightarrow> exchange list" where
  "submit_log be toISO s = fst (handleSubmit be toISO s)"

definition submit_state :: "backend \<Rightarrow> (jsstring \<Rightarrow> thrown + jsstring) \<Rightarrow> page \<Rightarrow> page" where
  "submit_state be toISO s = snd (handleSubmit be toISO s)"

fun is_create :: "api_call \<Rightarrow> bool" where
  "is_create (SurveyCreate p) = True"
| "is_create (QuestionCreate p) = True"
| "is_create (OptionCreate p) = True"
| "is_create (SurveyUpdate i p) = False"
| "is_create (SurveyRemove i) = False"
| "is_create (QuestionRemove i) = False"
| "is_create (OptionRemove i) = False"

datatype call_kind = SurveyCall | QuestionCall | OptionCall | OtherCall

fun kind_of :: "api_call \<Rightarrow> call_kind" where
  "kind_of (SurveyCreate p) = SurveyCall"
| "kind_of (QuestionCreate p) = QuestionCall"
| "kind_of (OptionCreate p) = OptionCall"
| "kind_of (SurveyUpdate i p) = OtherCall"
| "kind_of (SurveyRemove i) = OtherCall"
| "kind_of (QuestionRemove i) = OtherCall"
| "kind_of (OptionRemove i) = OtherCall"

definition failed :: "exchange \<Rightarrow> bool" where
  "failed x = isl (snd x)"

text \<open>The ids the backend returned for the surveys and for the questions it created.\<close>

definition survey_id_of :: "exchange \<Rightarrow> int list" where
  "survey_id_of x = (case x of (SurveyCreate p, Inr i) \<Rightarrow> [i] | _ \<Rightarrow> [])"

definition question_id_of :: "exchange \<Rightarrow> int list" where
  "question_id_of x = (case x of (QuestionCreate p, Inr i) \<Rightarrow> [i] | _ \<Rightarrow> [])"

definition created_survey_ids :: "exchange list \<Rightarrow> int list" where
  "created_survey_ids log = concat (map survey_id_of log)"

definition created_question_ids :: "exchange list \<Rightarrow> int list" where
  "created_question_ids log = concat (map question_id_of log)"

text \<open>
  A run of create calls that stops at the first failure: every call is a create, and
  either no call failed, or the last one threw \<open>e\<close> and the others did not fail.
\<close>

definition stops_at_failure :: "exchange list \<Rightarrow> thrown + 'a \<Rightarrow> bool" where
  "stops_at_failure ext r \<longleftrightarrow>
     list_all (\<lambda>x. is_create (fst x)) ext \<and>
     (case r of
        Inr u \<Rightarrow> list_all (\<lambda>x. \<not> failed x) ext
      | Inl e \<Rightarrow> ext \<noteq> [] \<and> list_all (\<lambda>x. \<not> failed x) (butlast ext) \<and> snd (last ext) = Inl e)"

text \<open>
  The calls of a successful submission in the words of the specification: the survey
  (title trimmed, description trimmed or null, active flag, expiry as a timestamp or
  null), then for each question in draft order the question (text trimmed, order, survey
  id) and, for each of its options in draft order whose trimmed text is not empty, the
  option (text trimmed, active flag, question id).
\<close>

definition spec_survey_call :: "(jsstring \<Rightarrow> thrown + jsstring) \<Rightarrow> page \<Rightarrow> api_call" where
  "spec_survey_call toISO s =
     SurveyCreate
       \<lparr>sp_titulo = trim (titulo s),
        sp_descricao = (if trim (descricao s) = [] then None else Some (trim (descricao s))),
        sp_ativo = ativo s,
        sp_dataValidade =
          (if dataValidade s = [] then None
           else case toISO (dataValidade s) of Inr d \<Rightarrow> Some d | Inl e \<Rightarrow> None)\<rparr>"

definition spec_option_calls :: "int \<Rightarrow> DraftOption list \<Rightarrow> api_call list" where
  "spec_option_calls questionId opts =
     map (\<lambda>opt. OptionCreate \<lparr>op_texto = trim (o_texto opt), op_ativo = o_ativo opt,
                               op_questionId = questionId\<rparr>)
       (filter (\<lambda>opt. trim (o_texto opt) \<noteq> []) opts)"

fun spec_question_calls :: "int \<Rightarrow> DraftQuestion list \<Rightarrow> int list \<Rightarrow> api_call list" where
  "spec_question_calls surveyId (q # qs) (i # ids) =
     QuestionCreate \<lparr>qp_texto = trim (q_texto q), qp_ordem = q_ordem q, qp_surveyId = surveyId\<rparr>
       # spec_option_calls i (q_options q) @ spec_question_calls surveyId qs ids"
| "spec_question_calls surveyId [] ids = []"
| "spec_question_calls surveyId qs [] = []"

definition spec_calls ::
  "(jsstring \<Rightarrow> thrown + jsstring) \<Rightarrow> page \<Rightarrow> int \<Rightarrow> int list \<Rightarrow> api_call list" where
  "spec_calls toISO s surveyId questionIds =
     spec_survey_call toISO s # spec_question_calls surveyId (questions s) questionIds"

subsection \<open>Example hosts and drafts\<close>

definition example_gen :: id_source where
  "example_gen n = replicate (Suc n) 0x61"

definition example_backend :: backend where
  "example_backend log c = Inr (100 + int (length log))"

definition failing_backend :: "nat \<Rightarrow> backend" where
  "failing_backend k log c =
     (if length log = k then Inl (JsError (js ''boom'')) else Inr (100 + int (length log)))"

definition example_toISO :: "jsstring \<Rightarrow> thrown + jsstring" where
  "example_toISO d = Inr (d @ js '':00.000Z'')"

definition example_host :: host where
  "example_host = \<lparr>h_gen = example_gen, h_backend = example_backend, h_toISO = example_toISO\<rparr>"

definition example_option :: "string \<Rightarrow> string \<Rightarrow> bool \<Rightarrow> DraftOption" where
  "example_option i t a = \<lparr>o_id = js i, o_texto = js t, o_ativo = a\<rparr>"

definition example_draft :: page where
  "example_draft =
     \<lparr>titulo = js '' Lunch '', descricao = [], ativo = True, dataValidade = [],
      questions =
        [\<lparr>q_id = js ''q1'', q_texto = js ''Soup?'', q_ordem = 1,
          q_options = [example_option ''a'' ''yes'' True, example_option ''b'' ''no'' True,
                       example_option ''c'' ''maybe'' False]\<rparr>,
         \<lparr>q_id = js ''q2'', q_texto = js ''Dessert?'', q_ordem = 2,
          q_options = [example_option ''d'' ''cake'' True, example_option ''e'' ''fruit'' True,
                       example_option ''f'' ''none'' True]\<rparr>],
      error = None, isSaving = False, success = None, selectedTemplate = [],
      uid_calls = 0, navigated = None\<rparr>"

definition blank_title_draft :: page where
  "blank_title_draft = example_draft\<lparr>titulo := [0x20, 0x9, 0xA0]\<rparr>"

definition blank_question_draft :: page where
  "blank_question_draft =
     example_draft\<lparr>questions := questions example_draft @
        [\<lparr>q_id = js ''q3'', q_texto = js ''  '', q_ordem = 3,
          q_options = [example_option ''g'' ''x'' True]\<rparr>]\<rparr>"

definition crowded_draft :: page where
  "crowded_draft =
     example_draft\<lparr>questions :=
        [\<lparr>q_id = js ''q1'', q_texto = js ''Soup?'', q_ordem = 1,
          q_options = replicate 6 (example_option ''a'' ''yes'' True)\<rparr>]\<rparr>"

definition single_draft :: page where
  "single_draft =
     example_draft\<lparr>questions :=
        [\<lparr>q_id = js ''q1'', q_texto = js ''Soup?'', q_ordem = 1,
          q_options = [example_option ''a'' ''yes'' True]\<rparr>]\<rparr>"

definition example_events :: "event list" where
  "example_events =
     [AddOption (example_gen 0), OptionAtivo (example_gen 0) (example_gen 6) True, AddQuestion,
      RemoveOption (example_gen 0) (example_gen 1), OptionAtivo (example_gen 0) (example_gen 6) True,
      AddOption (example_gen 0), RemoveQuestion (example_gen 7), RemoveQuestion (example_gen 0)]"

definition full_draft :: page where
  "full_draft =
     example_draft\<lparr>questions :=
        [\<lparr>q_id = js ''q1'', q_texto = js ''Soup?'', q_ordem = 1,
          q_options = [example_option ''a'' ''1'' True, example_option ''b'' ''2'' True,
                       example_option ''c'' ''3'' True, example_option ''d'' ''4'' True,
                       example_option ''e'' ''5'' True, example_option ''f'' ''6'' False]\<rparr>,
         \<lparr>q_id = js ''q2'', q_texto = js ''Dessert?'', q_ordem = 2,
          q_options = [example_option ''g'' ''cake'' False]\<rparr>]\<rparr>"

definition example_option_updates :: DraftOption_updates where
  "example_option_updates = \<lparr>uo_id = None, uo_texto = Some (js ''tea''), uo_ativo = None\<rparr>"

definition example_question_updates :: DraftQuestion_updates where
  "example_question_updates =
     \<lparr>uq_id = None, uq_texto = Some (js ''Starter?''), uq_ordem = None, uq_options = None\<rparr>"

section \<open>Lists mapped with a state\<close>

lemma length_map_st: "map_st f xs s = (ys, s') \<Longrightarrow> length ys = length xs"
  by (induction xs arbitrary: s ys s') (auto split: prod.splits)

lemma map_st_inv:
  assumes stp: "\<And>x s y s'. x \<in> set xs \<Longrightarrow> f x s = (y, s') \<Longrightarrow> Q (n s) x \<Longrightarrow> P (n s') y \<and> n s \<le> n s'"
    and monoP: "\<And>a b y. a \<le> b \<Longrightarrow> P a y \<Longrightarrow> P b y"
    and monoQ: "\<And>a b x. a \<le> b \<Longrightarrow> Q a x \<Longrightarrow> Q b x"
    and pre: "\<forall>x \<in> set xs. Q (n s) x"
    and run: "map_st f xs s = (ys, s')"
  shows "(\<forall>y \<in> set ys. P (n s') y) \<and> (n::'s \<Rightarrow> nat) s \<le> n s'"
  using stp pre run
proof (induction xs arbitrary: s ys s')
  case Nil
  then show ?case by simp
next
  case (Cons x xs)
  obtain y s1 where fx: "f x s = (y, s1)" by (cases "f x s")
  obtain zs s2 where rest: "map_st f xs s1 = (zs, s2)" by (cases "map_st f xs s1")
  from Cons.prems(3) fx rest have ys: "ys = y # zs" and s': "s' = s2" by auto
  have Qx: "Q (n s) x" using Cons.prems(2) by simp
  from Cons.prems(1)[of x s y s1] fx Qx have Py: "P (n s1) y" and le1: "n s \<le> n s1" by auto
  have pre': "\<forall>x \<in> set xs. Q (n s1) x" using Cons.prems(2) le1 monoQ by auto
  have "(\<forall>y \<in> set zs. P (n s2) y) \<and> n s1 \<le> n s2"
  proof (rule Cons.IH[OF _ pre' rest])
    fix x' t y' t'
    assume "x' \<in> set xs" "f x' t = (y', t')" "Q (n t) x'"
    then show "P (n t') y' \<and> n t \<le> n t'" using Cons.prems(1)[of x' t y' t'] by simp
  qed
  then show ?case using Py le1 monoP ys s' by (auto intro: monoP)
qed

lemma map_st_nth:
  assumes "map_st f xs s = (ys, s')" "k < length xs"
  shows "\<exists>t. ys ! k = fst (f (xs ! k) t)"
  using assms
proof (induction xs arbitrary: s ys s' k)
  case Nil
  then show ?case by simp
next
  case (Cons x xs)
  obtain y s1 where fx: "f x s = (y, s1)" by (cases "f x s")
  obtain zs s2 where rest: "map_st f xs s1 = (zs, s2)" by (cases "map_st f xs s1")
  from Cons.prems(1) fx rest have ys: "ys = y # zs" by simp
  show ?case
  proof (cases k)
    case 0
    with ys fx show ?thesis by (auto intro: exI[of _ s])
  next
    case (Suc m)
    with Cons.prems(2) have "m < length xs" by simp
    from Cons.IH[OF rest this] Suc ys show ?thesis by simp
  qed
qed

lemma map_st_nth_mono:
  assumes mono: "\<And>x t. (n::'s \<Rightarrow> nat) t \<le> n (snd (f x t))"
    and run: "map_st f xs s = (ys, s')" and k: "k < length xs"
  shows "\<exists>t. ys ! k = fst (f (xs ! k) t) \<and> n s \<le> n t"
  using run k
proof (induction xs arbitrary: s ys s' k)
  case Nil
  then show ?case by simp
next
  case (Cons x xs)
  obtain y s1 where fx: "f x s = (y, s1)" by (cases "f x s")
  obtain zs s2 where rest: "map_st f xs s1 = (zs, s2)" by (cases "map_st f xs s1")
  from Cons.prems(1) fx rest have ys: "ys = y # zs" by simp
  show ?case
  proof (cases k)
    case 0
    with ys fx show ?thesis by (auto intro: exI[of _ s])
  next
    case (Suc m)
    with Cons.prems(2) have "m < length xs" by simp
    from Cons.IH[OF rest this] obtain t where t: "zs ! m = fst (f (xs ! m) t)" "n s1 \<le> n t"
      by blast
    from mono[of s x] fx have "n s \<le> n s1" by simp
    with t Suc ys show ?thesis by (auto intro: exI[of _ t])
  qed
qed

lemma map_st_same:
  assumes "\<forall>x \<in> set xs. \<forall>t. f x t = (x, t)"
  shows "map_st f xs s = (xs, s)"
  using assms by (induction xs arbitrary: s) auto

lemma map_st_pure:
  assumes "\<And>x t. f x t = (g x, t)"
  shows "map_st f xs s = (map g xs, s)"
  by (induction xs arbitrary: s) (simp_all add: assms)

lemma map_st_preserves:
  assumes "\<And>x t. g (snd (f x t)) = g t" "map_st f xs s = (ys, s')"
  shows "g s' = g s"
  using assms(2)
proof (induction xs arbitrary: s ys s')
  case Nil
  then show ?case by simp
next
  case (Cons x xs)
  obtain y s1 where fx: "f x s = (y, s1)" by (cases "f x s")
  obtain zs s2 where rest: "map_st f xs s1 = (zs, s2)" by (cases "map_st f xs s1")
  from Cons.prems fx rest have s': "s' = s2" by simp
  from assms(1)[of x s] fx have "g s1 = g s" by simp
  with Cons.IH[OF rest] s' show ?case by simp
qed

lemma map_st_error_kept:
  assumes "\<forall>x \<in> set xs. \<forall>t. error (snd (f x t)) = error t" "map_st f xs s = (ys, s')"
  shows "error s' = error s"
  using assms
proof (induction xs arbitrary: s ys s')
  case Nil
  then show ?case by simp
next
  case (Cons x xs)
  obtain y s1 where fx: "f x s = (y, s1)" by (cases "f x s")
  obtain zs s2 where rest: "map_st f xs s1 = (zs, s2)" by (cases "map_st f xs s1")
  from Cons.prems fx rest have s': "s' = s2" by simp
  from Cons.prems(1) fx have "error s1 = error s" by (metis list.set_intros(1) snd_conv)
  moreover from Cons.prems(1) have "\<forall>x \<in> set xs. \<forall>t. error (snd (f x t)) = error t" by simp
  from Cons.IH[OF this rest] have "error s2 = error s1" .
  ultimately show ?case using s' by simp
qed

lemma map_st_error_set:
  assumes all: "\<And>x t. error (snd (f x t)) = error t \<or> error (snd (f x t)) = Some m"
    and one: "\<forall>t. error (snd (f (xs ! k) t)) = Some m" and k: "k < length xs"
    and run: "map_st f xs s = (ys, s')"
  shows "error s' = Some m"
proof -
  have keep: "error s = Some m \<Longrightarrow> map_st f xs s = (ys, s') \<Longrightarrow> error s' = Some m"
    for xs s ys s'
  proof (induction xs arbitrary: s ys s')
    case Nil
    then show ?case by simp
  next
    case (Cons x xs)
    obtain y s1 where fx: "f x s = (y, s1)" by (cases "f x s")
    obtain zs s2 where rest: "map_st f xs s1 = (zs, s2)" by (cases "map_st f xs s1")
    from Cons.prems fx rest have s': "s' = s2" by simp
    from all[of x s] fx Cons.prems(1) have "error s1 = Some m" by auto
    from Cons.IH[OF this rest] s' show ?case by simp
  qed
  show ?thesis using one k run
  proof (induction xs arbitrary: s ys s' k)
    case Nil
    then show ?case by simp
  next
    case (Cons x xs)
    obtain y s1 where fx: "f x s = (y, s1)" by (cases "f x s")
    obtain zs s2 where rest: "map_st f xs s1 = (zs, s2)" by (cases "map_st f xs s1")
    from Cons.prems fx rest have s': "s' = s2" by simp
    show ?case
    proof (cases k)
      case 0
      with Cons.prems(1) fx have "error s1 = Some m" by (metis nth_Cons_0 snd_conv)
      from keep[OF this rest] s' show ?thesis by simp
    next
      case (Suc j)
      with Cons.prems have "\<forall>t. error (snd (f (xs ! j) t)) = Some m" "j < length xs" by simp_all
      from Cons.IH[OF this rest] s' show ?thesis by simp
    qed
  qed
qed

section \<open>Reachable drafts are well formed\<close>

lemma question_ok_mono: "a \<le> b \<Longrightarrow> question_ok gen a q \<Longrightarrow> question_ok gen b q"
  unfolding question_ok_def by (meson less_le_trans)

lemma createQuestionDraft_snd: "snd (createQuestionDraft gen ordem n) = n + 6"
  by (simp add: createQuestionDraft_def createOptionDraft_def uniqueId_def)

lemma createQuestionDraft_ok:
  assumes "inj gen"
  shows "question_ok gen (n + 6) (fst (createQuestionDraft gen ordem n))"
proof -
  have neq: "\<And>a b. gen a = gen b \<longleftrightarrow> a = b" using assms by (auto dest: injD)
  have ex: "\<And>j. j < 6 \<Longrightarrow> \<exists>k<n + 6. gen (n + j) = gen k" by (metis add_less_cancel_left)
  show ?thesis
    using ex[of 1] ex[of 2] ex[of 3] ex[of 4] ex[of 5]
    by (simp add: question_ok_def createQuestionDraft_def createOptionDraft_def uniqueId_def
        countActiveOptions_def MAX_ACTIVE_OPTIONS_def neq)
qed

lemma countActive_filter_le:
  "countActiveOptions (filter P os) \<le> countActiveOptions os"
  by (induction os) (auto simp: countActiveOptions_def le_SucI)

lemma filter_id_nonempty:
  assumes "distinct (map o_id os)" "length os > 1"
  shows "filter (\<lambda>opt. o_id opt \<noteq> j) os \<noteq> []"
proof
  assume "filter (\<lambda>opt. o_id opt \<noteq> j) os = []"
  then have all: "\<forall>opt \<in> set os. o_id opt = j" by (simp add: filter_empty_conv)
  from assms(2) obtain a b rest where os: "os = a # b # rest"
    by (cases os; cases "tl os") auto
  with all have "o_id a = o_id b" by simp
  with assms(1) os show False by simp
qed

lemma spread_option_id: "uo_id u = None \<Longrightarrow> o_id (spread_option opt u) = o_id opt"
  by (simp add: spread_option_def)

lemma spread_option_ativo_None: "uo_ativo u = None \<Longrightarrow> o_ativo (spread_option opt u) = o_ativo opt"
  by (simp add: spread_option_def)

lemma spread_option_ativo_Some: "uo_ativo u = Some b \<Longrightarrow> o_ativo (spread_option opt u) = b"
  by (simp add: spread_option_def)

lemma count_spread_None:
  "uo_ativo u = None \<Longrightarrow>
   countActiveOptions (map (\<lambda>opt. if o_id opt = j then spread_option opt u else opt) os)
     = countActiveOptions os"
  by (induction os) (auto simp: countActiveOptions_def spread_option_ativo_None)

lemma count_spread_absent:
  "\<forall>opt \<in> set os. o_id opt \<noteq> j \<Longrightarrow>
   map (\<lambda>opt. if o_id opt = j then spread_option opt u else opt) os = os"
  by (induction os) auto

lemma count_spread_Some:
  assumes "distinct (map o_id os)" "find (\<lambda>opt. o_id opt = j) os = Some t" "uo_ativo u = Some b"
  shows "countActiveOptions (map (\<lambda>opt. if o_id opt = j then spread_option opt u else opt) os)
           + (if o_ativo t then 1 else 0)
         = countActiveOptions os + (if b then 1 else 0)"
  using assms(1,2)
proof (induction os)
  case Nil
  then show ?case by simp
next
  case (Cons a os)
  show ?case
  proof (cases "o_id a = j")
    case True
    with Cons.prems have t: "t = a" and absent: "\<forall>opt \<in> set os. o_id opt \<noteq> j"
      by (auto simp: image_iff)
    show ?thesis
      using True t count_spread_absent[OF absent, of u] assms(3)
      by (simp add: countActiveOptions_def spread_option_ativo_Some)
  next
    case False
    with Cons.prems have "distinct (map o_id os)" "find (\<lambda>opt. o_id opt = j) os = Some t" by auto
    from Cons.IH[OF this] False show ?thesis by (simp add: countActiveOptions_def)
  qed
qed

lemma map_spread_ids:
  "uo_id u = None \<Longrightarrow>
   map o_id (map (\<lambda>opt. if o_id opt = j then spread_option opt u else opt) os) = map o_id os"
  by (induction os) (auto simp: spread_option_id)

lemma updateOption_question_ok:
  assumes ok: "question_ok gen (uid_calls s) q" and uid: "uo_id u = None"
    and res: "updateOption_question i j u q s = (q', s')"
  shows "question_ok gen (uid_calls s') q' \<and> uid_calls s \<le> uid_calls s'"
proof (cases "q_id q = i")
  case False
  with res ok show ?thesis by (simp add: updateOption_question_def)
next
  case True
  show ?thesis
  proof (cases "find (\<lambda>opt. o_id opt = j) (q_options q)")
    case None
    with True res ok show ?thesis by (simp add: updateOption_question_def)
  next
    case (Some t)
    let ?os' = "map (\<lambda>opt. if o_id opt = j then spread_option opt u else opt) (q_options q)"
    let ?reject = "uo_ativo u = Some True \<and> \<not> o_ativo t
                   \<and> countActiveOptions (q_options q) \<ge> MAX_ACTIVE_OPTIONS"
    show ?thesis
    proof (cases ?reject)
      case True
      with \<open>q_id q = i\<close> Some res ok show ?thesis
        by (auto simp: updateOption_question_def Let_def)
    next
      case False
      with \<open>q_id q = i\<close> Some res have q': "q' = q\<lparr>q_options := ?os'\<rparr>" and s': "s' = s"
        by (auto simp: updateOption_question_def Let_def)
      have ids: "map o_id ?os' = map o_id (q_options q)" by (rule map_spread_ids[OF uid])
      have dist: "distinct (map o_id (q_options q))" using ok by (simp add: question_ok_def)
      have cnt: "countActiveOptions ?os' \<le> MAX_ACTIVE_OPTIONS"
      proof (cases "uo_ativo u")
        case None
        then show ?thesis using ok by (simp add: count_spread_None question_ok_def)
      next
        case (Some b)
        from count_spread_Some[OF dist \<open>find _ _ = Some t\<close> Some] False Some ok
        show ?thesis by (auto simp: question_ok_def split: if_splits)
      qed
      have mem: "\<forall>opt \<in> set ?os'. \<exists>k<uid_calls s. o_id opt = gen k"
      proof
        fix opt assume "opt \<in> set ?os'"
        then have "o_id opt \<in> set (map o_id ?os')" by (simp only: set_map) (rule imageI)
        then have "o_id opt \<in> o_id ` set (q_options q)" by (simp only: ids set_map)
        then show "\<exists>k<uid_calls s. o_id opt = gen k" using ok by (auto simp: question_ok_def)
      qed
      have ne: "?os' \<noteq> []" using ok by (simp add: question_ok_def)
      have dist': "distinct (map o_id ?os')" using ids dist by (simp only:)
      have sel: "q_options q' = ?os'" by (simp add: q')
      show ?thesis
        unfolding question_ok_def sel s' using dist' cnt mem ne by blast
    qed
  qed
qed

lemma addOption_question_ok:
  assumes inj: "inj gen" and ok: "question_ok gen (uid_calls s) q"
    and res: "addOption_question gen i q s = (q', s')"
  shows "question_ok gen (uid_calls s') q' \<and> uid_calls s \<le> uid_calls s'"
proof (cases "q_id q = i")
  case False
  with res ok show ?thesis by (simp add: addOption_question_def)
next
  case True
  let ?n = "uid_calls s"
  let ?lim = "countActiveOptions (q_options q) \<ge> MAX_ACTIVE_OPTIONS"
  let ?new = "\<lparr>o_id = gen ?n, o_texto = [], o_ativo = \<not> ?lim\<rparr>"
  from True res have q': "q' = q\<lparr>q_options := q_options q @ [?new]\<rparr>"
    and n': "uid_calls s' = Suc ?n"
    by (auto simp: addOption_question_def Let_def createOptionDraft_def uniqueId_def
        split: if_splits)
  have fresh: "gen ?n \<notin> o_id ` set (q_options q)"
  proof
    assume "gen ?n \<in> o_id ` set (q_options q)"
    then obtain opt where "opt \<in> set (q_options q)" "o_id opt = gen ?n" by auto
    with ok obtain k where "k < ?n" "gen k = gen ?n" by (auto simp: question_ok_def)
    with inj show False by (auto dest: injD)
  qed
  have cnt: "countActiveOptions (q_options q @ [?new]) \<le> MAX_ACTIVE_OPTIONS"
    using ok by (auto simp: countActiveOptions_def question_ok_def)
  have mem: "\<forall>opt \<in> set (q_options q @ [?new]). \<exists>k<Suc ?n. o_id opt = gen k"
    using ok by (auto simp: question_ok_def intro: less_SucI)
  show ?thesis
    unfolding q' n' question_ok_def using ok fresh cnt mem
    by (simp add: question_ok_def)
qed

lemma handleAddOption_ok:
  assumes inj: "inj gen" and ok: "page_ok gen s"
  shows "page_ok gen (handleAddOption gen i s)"
proof -
  obtain qs s1 where run: "map_st (addOption_question gen i) (questions s) s = (qs, s1)"
    by (cases "map_st (addOption_question gen i) (questions s) s")
  have "(\<forall>q \<in> set qs. question_ok gen (uid_calls s1) q) \<and> uid_calls s \<le> uid_calls s1"
  proof (rule map_st_inv[where Q = "question_ok gen" and P = "question_ok gen", OF _ _ _ _ run])
    show "\<forall>q \<in> set (questions s). question_ok gen (uid_calls s) q"
      using ok by (simp add: page_ok_def)
  qed (auto intro: question_ok_mono dest: addOption_question_ok[OF inj])
  moreover have "length qs = length (questions s)" by (rule length_map_st[OF run])
  ultimately show ?thesis using ok run by (auto simp: page_ok_def handleAddOption_def)
qed

lemma updateOption_ok:
  assumes uid: "uo_id u = None" and ok: "page_ok gen s"
  shows "page_ok gen (updateOption i j u s)"
proof -
  obtain qs s1 where run: "map_st (updateOption_question i j u) (questions s) s = (qs, s1)"
    by (cases "map_st (updateOption_question i j u) (questions s) s")
  have "(\<forall>q \<in> set qs. question_ok gen (uid_calls s1) q) \<and> uid_calls s \<le> uid_calls s1"
  proof (rule map_st_inv[where Q = "question_ok gen" and P = "question_ok gen", OF _ _ _ _ run])
    show "\<forall>q \<in> set (questions s). question_ok gen (uid_calls s) q"
      using ok by (simp add: page_ok_def)
  qed (auto intro: question_ok_mono dest: updateOption_question_ok[OF _ uid])
  moreover have "length qs = length (questions s)" by (rule length_map_st[OF run])
  ultimately show ?thesis using ok run by (auto simp: page_ok_def updateOption_def)
qed

lemma removeOption_question_ok:
  assumes ok: "question_ok gen n q"
  shows "question_ok gen n
           (q\<lparr>q_options := (if length (q_options q) > 1
                             then filter (\<lambda>opt. o_id opt \<noteq> j) (q_options q)
                             else q_options q)\<rparr>)"
proof (cases "length (q_options q) > 1")
  case False
  with ok show ?thesis by (simp add: question_ok_def)
next
  case True
  have dist: "distinct (map o_id (q_options q))" using ok by (simp add: question_ok_def)
  have "filter (\<lambda>opt. o_id opt \<noteq> j) (q_options q) \<noteq> []"
    by (rule filter_id_nonempty[OF dist True])
  moreover have "countActiveOptions (filter (\<lambda>opt. o_id opt \<noteq> j) (q_options q))
                   \<le> MAX_ACTIVE_OPTIONS"
    using countActive_filter_le[of "\<lambda>opt. o_id opt \<noteq> j" "q_options q"] ok
    by (simp add: question_ok_def)
  ultimately show ?thesis using True ok
    by (simp add: question_ok_def distinct_map_filter)
qed

lemma handleRemoveOption_ok:
  assumes ok: "page_ok gen s"
  shows "page_ok gen (handleRemoveOption i j s)"
  using ok removeOption_question_ok[of gen "uid_calls s" _ j]
  by (auto simp: page_ok_def handleRemoveOption_def)

lemma handleRemoveQuestion_ok:
  assumes ok: "page_ok gen s"
  shows "page_ok gen (handleRemoveQuestion i s)"
  using ok by (auto simp: page_ok_def handleRemoveQuestion_def Let_def)

lemma updateQuestion_ok:
  assumes "uq_options u = None" and ok: "page_ok gen s"
  shows "page_ok gen (updateQuestion i u s)"
  using assms
  by (auto simp: page_ok_def updateQuestion_def question_ok_def spread_question_def)

lemma handleAddQuestion_ok:
  assumes inj: "inj gen" and ok: "page_ok gen s"
  shows "page_ok gen (handleAddQuestion gen s)"
proof -
  let ?c = "createQuestionDraft gen (int (length (questions s)) + 1) (uid_calls s)"
  have new: "question_ok gen (uid_calls s + 6) (fst ?c)" by (rule createQuestionDraft_ok[OF inj])
  have n: "snd ?c = uid_calls s + 6" by (rule createQuestionDraft_snd)
  have old: "\<forall>q \<in> set (questions s). question_ok gen (uid_calls s + 6) q"
    using ok by (auto simp: page_ok_def intro: question_ok_mono[of "uid_calls s"])
  show ?thesis using new n old
    by (cases ?c) (simp add: page_ok_def handleAddQuestion_def)
qed

lemma limpar_onClick_ok:
  assumes inj: "inj gen"
  shows "page_ok gen (limpar_onClick gen s)"
proof -
  let ?c = "createQuestionDraft gen 1 (uid_calls s)"
  have new: "question_ok gen (uid_calls s + 6) (fst ?c)" by (rule createQuestionDraft_ok[OF inj])
  have n: "snd ?c = uid_calls s + 6" by (rule createQuestionDraft_snd)
  show ?thesis using new n
    by (cases ?c) (simp add: page_ok_def limpar_onClick_def)
qed

lemma initial_page_ok:
  assumes inj: "inj gen"
  shows "page_ok gen (initial_page gen n)"
proof -
  let ?c = "createQuestionDraft gen 1 n"
  have new: "question_ok gen (n + 6) (fst ?c)" by (rule createQuestionDraft_ok[OF inj])
  have n: "snd ?c = n + 6" by (rule createQuestionDraft_snd)
  show ?thesis using new n
    by (cases ?c) (simp add: page_ok_def initial_page_def)
qed

lemma template_options_run:
  "map_st (template_option gen) ts n = (os, n') \<Longrightarrow>
     n' = n + length ts \<and> map o_id os = map gen [n ..< n + length ts] \<and>
     map o_texto os = ts \<and> map o_ativo os = replicate (length ts) True"
proof (induction ts arbitrary: n os n')
  case Nil
  then show ?case by simp
next
  case (Cons a ts)
  obtain zs m where rest: "map_st (template_option gen) ts (Suc n) = (zs, m)"
    by (cases "map_st (template_option gen) ts (Suc n)")
  have one: "template_option gen a n = (\<lparr>o_id = gen n, o_texto = a, o_ativo = True\<rparr>, Suc n)"
    by (simp add: template_option_def uniqueId_def)
  from Cons.prems rest one have os: "os = \<lparr>o_id = gen n, o_texto = a, o_ativo = True\<rparr> # zs"
    and n': "n' = m"
    by simp_all
  from Cons.IH[OF rest] show ?case
    unfolding os n' by (simp add: upt_conv_Cons del: upt_Suc)
qed

lemma countActive_map: "countActiveOptions os = length (filter (\<lambda>b. b) (map o_ativo os))"
  by (induction os) (auto simp: countActiveOptions_def)

lemma template_question_fields:
  assumes "template_question gen (texto, index) n = (q, n')"
  shows "q_texto q = texto" "q_ordem q = int index + 1"
    "map o_texto (q_options q) = TEMPLATE_OPTIONS"
    "map o_ativo (q_options q) = replicate (length TEMPLATE_OPTIONS) True"
    "map o_id (q_options q) = map gen [Suc n ..< Suc n + length TEMPLATE_OPTIONS]"
    "n' = Suc n + length TEMPLATE_OPTIONS"
proof -
  obtain os m where run: "map_st (template_option gen) TEMPLATE_OPTIONS (Suc n) = (os, m)"
    by (cases "map_st (template_option gen) TEMPLATE_OPTIONS (Suc n)")
  from assms run have q: "q = \<lparr>q_id = gen n, q_texto = texto, q_ordem = int index + 1, q_options = os\<rparr>"
    and n': "n' = m"
    by (auto simp: template_question_def uniqueId_def)
  note r = template_options_run[OF run]
  show "q_texto q = texto" "q_ordem q = int index + 1" by (simp_all add: q)
  show "map o_texto (q_options q) = TEMPLATE_OPTIONS" using r by (simp add: q)
  show "map o_ativo (q_options q) = replicate (length TEMPLATE_OPTIONS) True" using r by (simp add: q)
  show "map o_id (q_options q) = map gen [Suc n ..< Suc n + length TEMPLATE_OPTIONS]"
    using r by (simp add: q)
  show "n' = Suc n + length TEMPLATE_OPTIONS" using r by (simp add: n')
qed

lemma length_TEMPLATE_OPTIONS: "length TEMPLATE_OPTIONS = 5"
  by (simp add: TEMPLATE_OPTIONS_def)

lemma length_TEMPLATE_QUESTIONS: "length TEMPLATE_QUESTIONS = 10"
  by (simp add: TEMPLATE_QUESTIONS_def)

lemma template_question_ok:
  assumes inj: "inj gen" and res: "template_question gen ti n = (q, n')"
  shows "question_ok gen n' q \<and> n \<le> n'"
proof -
  obtain texto index where ti: "ti = (texto, index)" by (cases ti)
  note f = template_question_fields[OF res[unfolded ti]]
  have dist: "distinct (map o_id (q_options q))"
    unfolding f(5) using inj by (simp add: distinct_map inj_on_def inj_def)
  have mem: "\<forall>opt \<in> set (q_options q). \<exists>k<n'. o_id opt = gen k"
  proof
    fix opt assume "opt \<in> set (q_options q)"
    then have "o_id opt \<in> set (map o_id (q_options q))" by (simp only: set_map) (rule imageI)
    then have "o_id opt \<in> gen ` {Suc n ..< Suc n + length TEMPLATE_OPTIONS}"
      unfolding f(5) by (simp del: upt_Suc)
    then obtain k where "k \<in> {Suc n ..< Suc n + length TEMPLATE_OPTIONS}" "o_id opt = gen k"
      by blast
    then have "k < n'" "o_id opt = gen k" unfolding f(6) by simp_all
    then show "\<exists>k<n'. o_id opt = gen k" by blast
  qed
  have cnt: "countActiveOptions (q_options q) \<le> MAX_ACTIVE_OPTIONS"
    by (simp add: countActive_map f(4) length_TEMPLATE_OPTIONS MAX_ACTIVE_OPTIONS_def)
  have "length (map o_texto (q_options q)) = 5"
    unfolding f(3) by (rule length_TEMPLATE_OPTIONS)
  then have ne: "q_options q \<noteq> []" by auto
  show ?thesis unfolding question_ok_def using dist mem cnt ne f(6) by simp
qed

lemma builtQuestions_ok:
  assumes inj: "inj gen" and res: "builtQuestions gen n = (qs, n')"
  shows "(\<forall>q \<in> set qs. question_ok gen n' q) \<and> n \<le> n'"
  by (rule map_st_inv[where Q = "\<lambda>_ _. True" and P = "question_ok gen" and n = "\<lambda>k. k",
        OF _ _ _ _ res[unfolded builtQuestions_def]])
     (auto intro: question_ok_mono dest: template_question_ok[OF inj])

lemma length_builtQuestions: "builtQuestions gen n = (qs, n') \<Longrightarrow> length qs = 10"
  using length_map_st[of "template_question gen" _ n qs n']
  by (simp add: builtQuestions_def length_TEMPLATE_QUESTIONS)

lemma template_onChange_ok:
  assumes inj: "inj gen" and ok: "page_ok gen s"
  shows "page_ok gen (template_onChange gen v s)"
proof (cases "v = js ''supermarkets''")
  case False
  with ok show ?thesis by (simp add: template_onChange_def page_ok_def)
next
  case True
  obtain qs n' where res: "builtQuestions gen (uid_calls s) = (qs, n')"
    by (cases "builtQuestions gen (uid_calls s)")
  from length_builtQuestions[OF res] have "qs \<noteq> []" by auto
  with builtQuestions_ok[OF inj res] True res show ?thesis
    by (simp add: template_onChange_def page_ok_def)
qed

lemma handleSubmit_draft:
  "questions (snd (handleSubmit be toISO s)) = questions s"
  "uid_calls (snd (handleSubmit be toISO s)) = uid_calls s"
  "titulo (snd (handleSubmit be toISO s)) = titulo s"
  "descricao (snd (handleSubmit be toISO s)) = descricao s"
  "ativo (snd (handleSubmit be toISO s)) = ativo s"
  "dataValidade (snd (handleSubmit be toISO s)) = dataValidade s"
  "selectedTemplate (snd (handleSubmit be toISO s)) = selectedTemplate s"
  by (simp_all add: handleSubmit_def Let_def split: prod.splits sum.splits)

lemma step_ok:
  assumes inj: "inj (h_gen h)" and ok: "page_ok (h_gen h) s"
  shows "page_ok (h_gen h) (step h s ev)"
proof (cases ev)
  case Render
  have "\<forall>q \<in> set (questions s). question_ok (h_gen h) (uid_calls s + 6) q"
    using ok by (auto simp: page_ok_def intro: question_ok_mono[of "uid_calls s"])
  with ok Render show ?thesis by (simp add: page_ok_def createQuestionDraft_snd)
next
  case Submit
  with ok show ?thesis by (simp add: page_ok_def handleSubmit_draft)
qed (use ok in \<open>simp_all add: template_onChange_ok[OF inj] limpar_onClick_ok[OF inj]
      handleAddQuestion_ok[OF inj] handleRemoveQuestion_ok updateQuestion_ok
      handleAddOption_ok[OF inj] handleRemoveOption_ok updateOption_ok\<close>,
    simp_all add: page_ok_def)

lemma run_ok:
  assumes inj: "inj (h_gen h)" and ok: "page_ok (h_gen h) s"
  shows "page_ok (h_gen h) (run h s evs)"
  using ok unfolding run_def
  by (induction evs arbitrary: s) (simp_all add: step_ok[OF inj])

lemma inj_example_gen: "inj example_gen"
proof (rule injI)
  fix a b assume "example_gen a = example_gen b"
  then have "length (example_gen a) = length (example_gen b)" by simp
  then show "a = b" by (simp add: example_gen_def)
qed

text \<open>
  Claim C1. The page starts with the draft \<open>[createQuestionDraft(1)]\<close>. After every
  sequence of events (adding and removing questions and options, editing a question's
  text or order, editing an option's text or active flag, and also loading the template,
  clearing, submitting and rendering), every question of the draft has at most
  \<open>MAX_ACTIVE_OPTIONS\<close> = 5 options with \<open>ativo = true\<close>, provided \<open>uniqueId\<close> never answers
  twice with the same id.
\<close>

theorem active_option_cap:
  assumes "inj (h_gen h)"
  shows "\<forall>q \<in> set (questions (run h (initial_page (h_gen h) n) evs)).
           countActiveOptions (q_options q) \<le> MAX_ACTIVE_OPTIONS"
  using run_ok[OF assms initial_page_ok[OF assms], of n evs]
  by (simp add: page_ok_def question_ok_def)

text \<open>
  A run that adds a sixth option to the first question, tries to activate it, adds a
  question, removes an active option, activates the sixth, adds a seventh option and
  removes questions.
\<close>

theorem active_option_cap_witness:
  "inj (h_gen example_host) \<and>
   list_all (\<lambda>q. countActiveOptions (q_options q) \<le> MAX_ACTIVE_OPTIONS)
     (questions (run example_host (initial_page (h_gen example_host) 0) example_events)) \<and>
   map (\<lambda>q. countActiveOptions (q_options q))
     (questions (run example_host (initial_page (h_gen example_host) 0) (take 3 example_events)))
     = [5, 5] \<and>
   map (\<lambda>q. countActiveOptions (q_options q))
     (questions (run example_host (initial_page (h_gen example_host) 0) example_events)) = [5]"
proof -
  have i: "inj (h_gen example_host)" by (simp add: example_host_def inj_example_gen)
  note t = active_option_cap[OF i, of 0 example_events]
  have e1: "map (\<lambda>q. countActiveOptions (q_options q))
     (questions (run example_host (initial_page (h_gen example_host) 0) (take 3 example_events)))
     = [5, 5]" by code_simp
  have e2: "map (\<lambda>q. countActiveOptions (q_options q))
     (questions (run example_host (initial_page (h_gen example_host) 0) example_events)) = [5]"
    by code_simp
  show ?thesis using i t e1 e2 by (simp add: list_all_iff)
qed

text \<open>
  Claim C8. In every draft the page reaches there is a question, and every question has
  an option (provided \<open>uniqueId\<close> never answers twice with the same id).
  \<open>handleRemoveOption\<close> leaves the option list of a question with exactly one option as it
  is, and \<open>handleRemoveQuestion\<close> leaves the question list of a draft with exactly one
  question as it is.
\<close>

theorem minimum_cardinality:
  "(inj (h_gen h) \<longrightarrow>
      questions (run h (initial_page (h_gen h) n) evs) \<noteq> [] \<and>
      (\<forall>q \<in> set (questions (run h (initial_page (h_gen h) n) evs)). q_options q \<noteq> [])) \<and>
   (\<forall>k < length (questions s). length (q_options (questions s ! k)) = 1 \<longrightarrow>
      length (questions (handleRemoveOption i j s)) = length (questions s) \<and>
      q_options (questions (handleRemoveOption i j s) ! k) = q_options (questions s ! k)) \<and>
   (length (questions s) = 1 \<longrightarrow> questions (handleRemoveQuestion i s) = questions s)"
proof -
  have a: "questions (run h (initial_page (h_gen h) n) evs) \<noteq> [] \<and>
      (\<forall>q \<in> set (questions (run h (initial_page (h_gen h) n) evs)). q_options q \<noteq> [])"
    if inj: "inj (h_gen h)"
    using run_ok[OF inj initial_page_ok[OF inj], of n evs]
    by (simp add: page_ok_def question_ok_def)
  have b: "length (questions (handleRemoveOption i j s)) = length (questions s) \<and>
      q_options (questions (handleRemoveOption i j s) ! k) = q_options (questions s ! k)"
    if "k < length (questions s)" "length (q_options (questions s ! k)) = 1" for k
    using that by (simp add: handleRemoveOption_def)
  have c: "questions (handleRemoveQuestion i s) = questions s" if "length (questions s) = 1"
  proof -
    from that obtain q where "questions s = [q]" by (cases "questions s") auto
    then show ?thesis by (simp add: handleRemoveQuestion_def Let_def)
  qed
  show ?thesis using a b c by blast
qed

text \<open>
  The same run, and a draft with one question that has one option, from which that
  option and that question are asked to be removed.
\<close>

theorem minimum_cardinality_witness:
  "inj (h_gen example_host) \<and>
   questions (run example_host (initial_page (h_gen example_host) 0) example_events) \<noteq> [] \<and>
   list_all (\<lambda>q. q_options q \<noteq> [])
     (questions (run example_host (initial_page (h_gen example_host) 0) example_events)) \<and>
   0 < length (questions single_draft) \<and>
   length (q_options (questions single_draft ! 0)) = 1 \<and>
   q_options (questions (handleRemoveOption (js ''q1'') (js ''a'') single_draft) ! 0)
     = q_options (questions single_draft ! 0) \<and>
   length (questions single_draft) = 1 \<and>
   questions (handleRemoveQuestion (js ''q1'') single_draft) = questions single_draft"
proof -
  have i: "inj (h_gen example_host)" by (simp add: example_host_def inj_example_gen)
  have l: "0 < length (questions single_draft)" "length (questions single_draft) = 1"
    "length (q_options (questions single_draft ! 0)) = 1"
    by (simp_all add: single_draft_def example_draft_def)
  note t = minimum_cardinality[of example_host 0 example_events single_draft "js ''q1''" "js ''a''"]
  from t i have r1: "questions (run example_host (initial_page (h_gen example_host) 0) example_events) \<noteq> []"
    "\<forall>q \<in> set (questions (run example_host (initial_page (h_gen example_host) 0) example_events)).
       q_options q \<noteq> []" by blast+
  from t l have r2: "q_options (questions (handleRemoveOption (js ''q1'') (js ''a'') single_draft) ! 0)
     = q_options (questions single_draft ! 0)" by blast
  from t l have r3: "questions (handleRemoveQuestion (js ''q1'') single_draft) = questions single_draft"
    by blast
  show ?thesis using i l r1 r2 r3 by (simp add: list_all_iff)
qed

section \<open>Mutations of one question\<close>

text \<open>What the two callbacks do to the other cells of the state.\<close>

lemma updateOption_question_cells:
  "titulo (snd (updateOption_question i j u q t)) = titulo t"
  "descricao (snd (updateOption_question i j u q t)) = descricao t"
  "ativo (snd (updateOption_question i j u q t)) = ativo t"
  "dataValidade (snd (updateOption_question i j u q t)) = dataValidade t"
  "isSaving (snd (updateOption_question i j u q t)) = isSaving t"
  "success (snd (updateOption_question i j u q t)) = success t"
  "selectedTemplate (snd (updateOption_question i j u q t)) = selectedTemplate t"
  "uid_calls (snd (updateOption_question i j u q t)) = uid_calls t"
  "navigated (snd (updateOption_question i j u q t)) = navigated t"
  by (simp_all add: updateOption_question_def Let_def split: option.splits)

lemma updateOption_draft_cells:
  "titulo (updateOption i j u s) = titulo s"
  "descricao (updateOption i j u s) = descricao s"
  "ativo (updateOption i j u s) = ativo s"
  "dataValidade (updateOption i j u s) = dataValidade s"
proof -
  obtain qs s1 where run: "map_st (updateOption_question i j u) (questions s) s = (qs, s1)"
    by (cases "map_st (updateOption_question i j u) (questions s) s")
  have "titulo s1 = titulo s" "descricao s1 = descricao s" "ativo s1 = ativo s"
    "dataValidade s1 = dataValidade s"
    by (rule map_st_preserves[OF _ run], rule updateOption_question_cells)+
  then show "titulo (updateOption i j u s) = titulo s"
    "descricao (updateOption i j u s) = descricao s"
    "ativo (updateOption i j u s) = ativo s"
    "dataValidade (updateOption i j u s) = dataValidade s"
    using run by (simp_all add: updateOption_def)
qed

lemma updateOption_questions:
  "questions (updateOption i j u s) = fst (map_st (updateOption_question i j u) (questions s) s)"
  "error (updateOption i j u s) = error (snd (map_st (updateOption_question i j u) (questions s) s))"
  by (simp_all add: updateOption_def split: prod.splits)

lemma handleAddOption_questions:
  "questions (handleAddOption gen i s) = fst (map_st (addOption_question gen i) (questions s) s)"
  "error (handleAddOption gen i s) = error (snd (map_st (addOption_question gen i) (questions s) s))"
  by (simp_all add: handleAddOption_def split: prod.splits)

lemma updateOption_question_other:
  "q_id q \<noteq> i \<Longrightarrow> updateOption_question i j u q t = (q, t)"
  by (simp add: updateOption_question_def)

lemma updateOption_question_absent:
  "\<forall>opt \<in> set (q_options q). o_id opt \<noteq> j \<Longrightarrow> updateOption_question i j u q t = (q, t)"
  by (simp add: updateOption_question_def find_None_iff[THEN iffD2] split: option.splits)

lemma addOption_question_other:
  "q_id q \<noteq> i \<Longrightarrow> addOption_question gen i q t = (q, t)"
  by (simp add: addOption_question_def)

lemma updateOption_deactivate:
  "updateOption_question i j \<lparr>uo_id = None, uo_texto = None, uo_ativo = Some False\<rparr> q t
     = (if q_id q = i
        then q\<lparr>q_options := map (\<lambda>opt. if o_id opt = j then opt\<lparr>o_ativo := False\<rparr> else opt)
                                  (q_options q)\<rparr>
        else q, t)"
proof (cases "find (\<lambda>opt. o_id opt = j) (q_options q)")
  case None
  then have "\<forall>opt \<in> set (q_options q). o_id opt \<noteq> j" by (simp add: find_None_iff)
  then have "map (\<lambda>opt. if o_id opt = j then opt\<lparr>o_ativo := False\<rparr> else opt) (q_options q)
               = q_options q" by (intro map_idI) simp
  with None show ?thesis by (simp add: updateOption_question_def)
next
  case (Some t)
  have "\<And>opt. spread_option opt \<lparr>uo_id = None, uo_texto = None, uo_ativo = Some False\<rparr>
          = opt\<lparr>o_ativo := False\<rparr>" by (simp add: spread_option_def)
  with Some show ?thesis by (simp add: updateOption_question_def)
qed

text \<open>
  Claim C4. \<open>updateOption(questionId, optionId, { ativo: false })\<close> always goes through: in
  every question with that id every option with that id ends with \<open>ativo = false\<close>, and
  nothing else in the state changes, so no message is set. \<open>updateOption\<close> with \<open>ativo: true\<close> on an option that is
  inactive, in a question that already has \<open>MAX_ACTIVE_OPTIONS\<close> active options, is
  rejected: the question is returned as it was, the warning is set, and when no other
  question has the same id the whole draft is as it was.
\<close>

theorem setOptionActive_semantics:
  "updateOption i j \<lparr>uo_id = None, uo_texto = None, uo_ativo = Some False\<rparr> s
      = s\<lparr>questions :=
            map (\<lambda>q. if q_id q = i
                      then q\<lparr>q_options := map (\<lambda>opt. if o_id opt = j then opt\<lparr>o_ativo := False\<rparr>
                                                       else opt) (q_options q)\<rparr>
                      else q) (questions s)\<rparr> \<and>
   (k < length (questions s) \<and> q_id (questions s ! k) = i \<and>
    find (\<lambda>opt. o_id opt = j) (q_options (questions s ! k)) = Some target \<and> \<not> o_ativo target \<and>
    MAX_ACTIVE_OPTIONS \<le> countActiveOptions (q_options (questions s ! k)) \<and>
    uo_ativo u = Some True
    \<longrightarrow> length (questions (updateOption i j u s)) = length (questions s) \<and>
        questions (updateOption i j u s) ! k = questions s ! k \<and>
        error (updateOption i j u s) = Some MSG_DEACTIVATE_FIRST \<and>
        MSG_DEACTIVATE_FIRST \<noteq> [] \<and>
        ((\<forall>k' < length (questions s). k' \<noteq> k \<longrightarrow> q_id (questions s ! k') \<noteq> i)
           \<longrightarrow> draft (updateOption i j u s) = draft s))"
proof -
  let ?off = "\<lparr>uo_id = None, uo_texto = None, uo_ativo = Some False\<rparr>"
  have off: "updateOption i j ?off s
      = s\<lparr>questions :=
            map (\<lambda>q. if q_id q = i
                      then q\<lparr>q_options := map (\<lambda>opt. if o_id opt = j then opt\<lparr>o_ativo := False\<rparr>
                                                       else opt) (q_options q)\<rparr>
                      else q) (questions s)\<rparr>"
  proof -
    have "map_st (updateOption_question i j ?off) (questions s) s
            = (map (\<lambda>q. if q_id q = i
                      then q\<lparr>q_options := map (\<lambda>opt. if o_id opt = j then opt\<lparr>o_ativo := False\<rparr>
                                                       else opt) (q_options q)\<rparr>
                      else q) (questions s), s)"
      by (rule map_st_pure) (rule updateOption_deactivate)
    then show ?thesis by (simp add: updateOption_def)
  qed
  have rej: "length (questions (updateOption i j u s)) = length (questions s) \<and>
        questions (updateOption i j u s) ! k = questions s ! k \<and>
        error (updateOption i j u s) = Some MSG_DEACTIVATE_FIRST \<and>
        MSG_DEACTIVATE_FIRST \<noteq> [] \<and>
        ((\<forall>k' < length (questions s). k' \<noteq> k \<longrightarrow> q_id (questions s ! k') \<noteq> i)
           \<longrightarrow> draft (updateOption i j u s) = draft s)"
    if k: "k < length (questions s)" and qi: "q_id (questions s ! k) = i"
      and tg: "find (\<lambda>opt. o_id opt = j) (q_options (questions s ! k)) = Some target"
      and off: "\<not> o_ativo target"
      and cap: "MAX_ACTIVE_OPTIONS \<le> countActiveOptions (q_options (questions s ! k))"
      and u: "uo_ativo u = Some True"
  proof -
    let ?f = "updateOption_question i j u"
    obtain qs s1 where run: "map_st ?f (questions s) s = (qs, s1)"
      by (cases "map_st ?f (questions s) s")
    have qs: "questions (updateOption i j u s) = qs" using run by (simp add: updateOption_questions)
    have len: "length qs = length (questions s)" by (rule length_map_st[OF run])
    have rejected: "?f (questions s ! k) t = (questions s ! k, t\<lparr>error := Some MSG_DEACTIVATE_FIRST\<rparr>)"
      for t
      using qi tg off cap u by (simp add: updateOption_question_def)
    from map_st_nth[OF run k] obtain t where "qs ! k = fst (?f (questions s ! k) t)" by blast
    then have same: "qs ! k = questions s ! k" by (simp add: rejected)
    have err: "error s1 = Some MSG_DEACTIVATE_FIRST"
    proof (rule map_st_error_set[OF _ _ k run])
      show "error (snd (?f x t)) = error t \<or> error (snd (?f x t)) = Some MSG_DEACTIVATE_FIRST"
        for x t
        by (simp add: updateOption_question_def Let_def split: option.splits)
      show "\<forall>t. error (snd (?f (questions s ! k) t)) = Some MSG_DEACTIVATE_FIRST"
        by (simp add: rejected)
    qed
    have msg: "MSG_DEACTIVATE_FIRST \<noteq> []" by (simp add: MSG_DEACTIVATE_FIRST_def js_def)
    have whole: "draft (updateOption i j u s) = draft s"
      if others: "\<forall>k' < length (questions s). k' \<noteq> k \<longrightarrow> q_id (questions s ! k') \<noteq> i"
    proof -
      have "qs = questions s"
      proof (rule nth_equalityI[OF len])
        fix m assume m: "m < length qs"
        show "qs ! m = questions s ! m"
        proof (cases "m = k")
          case True
          with same show ?thesis by simp
        next
          case False
          with others m len have "q_id (questions s ! m) \<noteq> i" by simp
          moreover from map_st_nth[OF run, of m] m len obtain t
            where "qs ! m = fst (?f (questions s ! m) t)" by auto
          ultimately show ?thesis by (simp add: updateOption_question_other)
        qed
      qed
      then show ?thesis by (simp add: draft_def qs updateOption_draft_cells)
    qed
    show ?thesis using qs len same err msg whole run by (simp add: updateOption_questions)
  qed
  show ?thesis using off rej by blast
qed

text \<open>
  A draft whose first question has five active options and a sixth, inactive one, which is
  asked to become active; and the first option of that question is deactivated.
\<close>

theorem setOptionActive_semantics_witness:
  "length (questions full_draft) = 2 \<and> q_id (questions full_draft ! 0) = js ''q1'' \<and>
   q_id (questions full_draft ! 1) \<noteq> js ''q1'' \<and>
   find (\<lambda>opt. o_id opt = js ''f'') (q_options (questions full_draft ! 0))
     = Some (example_option ''f'' ''6'' False) \<and>
   \<not> o_ativo (example_option ''f'' ''6'' False) \<and>
   MAX_ACTIVE_OPTIONS \<le> countActiveOptions (q_options (questions full_draft ! 0)) \<and>
   questions (updateOption (js ''q1'') (js ''f'')
      \<lparr>uo_id = None, uo_texto = None, uo_ativo = Some True\<rparr> full_draft) ! 0
     = questions full_draft ! 0 \<and>
   error (updateOption (js ''q1'') (js ''f'')
      \<lparr>uo_id = None, uo_texto = None, uo_ativo = Some True\<rparr> full_draft)
     = Some MSG_DEACTIVATE_FIRST \<and>
   draft (updateOption (js ''q1'') (js ''f'')
      \<lparr>uo_id = None, uo_texto = None, uo_ativo = Some True\<rparr> full_draft) = draft full_draft \<and>
   map (\<lambda>q. map o_ativo (q_options q))
     (questions (updateOption (js ''q1'') (js ''a'')
        \<lparr>uo_id = None, uo_texto = None, uo_ativo = Some False\<rparr> full_draft))
     = [[False, True, True, True, True, False], [False]]"
proof -
  let ?on = "\<lparr>uo_id = None, uo_texto = None, uo_ativo = Some True\<rparr>"
  have h: "length (questions full_draft) = 2" "q_id (questions full_draft ! 0) = js ''q1''"
    "q_id (questions full_draft ! 1) \<noteq> js ''q1''"
    "find (\<lambda>opt. o_id opt = js ''f'') (q_options (questions full_draft ! 0))
       = Some (example_option ''f'' ''6'' False)"
    "\<not> o_ativo (example_option ''f'' ''6'' False)"
    "MAX_ACTIVE_OPTIONS \<le> countActiveOptions (q_options (questions full_draft ! 0))"
    by code_simp+
  have k: "0 < length (questions full_draft)" using h(1) by simp
  have others: "\<forall>k' < length (questions full_draft). k' \<noteq> 0 \<longrightarrow>
                  q_id (questions full_draft ! k') \<noteq> js ''q1''"
    using h(1,3) by (auto simp: less_Suc_eq numeral_2_eq_2)
  have u: "uo_ativo ?on = Some True" by simp
  note t = setOptionActive_semantics[of "js ''q1''" "js ''a''" full_draft]
  note r = setOptionActive_semantics[of "js ''q1''" "js ''f''" full_draft 0
      "example_option ''f'' ''6'' False" ?on, THEN conjunct2, rule_format,
      OF conjI[OF k conjI[OF h(2) conjI[OF h(4) conjI[OF h(5) conjI[OF h(6) u]]]]]]
  from r others have whole: "draft (updateOption (js ''q1'') (js ''f'') ?on full_draft)
                               = draft full_draft" by blast
  have off: "map (\<lambda>q. map o_ativo (q_options q))
     (questions (updateOption (js ''q1'') (js ''a'')
        \<lparr>uo_id = None, uo_texto = None, uo_ativo = Some False\<rparr> full_draft))
     = [[False, True, True, True, True, False], [False]]"
    unfolding t[THEN conjunct1] by code_simp
  show ?thesis using h r whole off by simp
qed

text \<open>
  Claim C5. \<open>handleAddOption\<close> appends exactly one option, with a new id and an empty
  text, to a question with the given id, whatever the state. The option is inactive and the
  warning is set when \<open>MAX_ACTIVE_OPTIONS\<close> options of the question are active already;
  otherwise it is active, and when no question with that id is at the cap the message cell
  is left alone.
\<close>

theorem addOption_semantics:
  assumes k: "k < length (questions s)" and qi: "q_id (questions s ! k) = i"
  shows "length (questions (handleAddOption gen i s)) = length (questions s) \<and>
         (\<exists>m \<ge> uid_calls s.
            questions (handleAddOption gen i s) ! k
              = (questions s ! k)\<lparr>q_options := q_options (questions s ! k) @
                   [\<lparr>o_id = gen m, o_texto = [],
                     o_ativo = (countActiveOptions (q_options (questions s ! k))
                                  < MAX_ACTIVE_OPTIONS)\<rparr>]\<rparr>) \<and>
         (MAX_ACTIVE_OPTIONS \<le> countActiveOptions (q_options (questions s ! k))
            \<longrightarrow> error (handleAddOption gen i s) = Some MSG_ADD_INACTIVE \<and> MSG_ADD_INACTIVE \<noteq> []) \<and>
         ((\<forall>q \<in> set (questions s). q_id q = i \<longrightarrow>
              countActiveOptions (q_options q) < MAX_ACTIVE_OPTIONS)
            \<longrightarrow> error (handleAddOption gen i s) = error s)"
proof -
  let ?f = "addOption_question gen i"
  let ?q = "questions s ! k"
  obtain qs s1 where run: "map_st ?f (questions s) s = (qs, s1)"
    by (cases "map_st ?f (questions s) s")
  have qs: "questions (handleAddOption gen i s) = qs" "error (handleAddOption gen i s) = error s1"
    using run by (simp_all add: handleAddOption_questions)
  have len: "length qs = length (questions s)" by (rule length_map_st[OF run])
  have mono: "uid_calls t \<le> uid_calls (snd (?f x t))" for x t
    by (simp add: addOption_question_def Let_def createOptionDraft_def uniqueId_def)
  from map_st_nth_mono[of uid_calls ?f, OF mono run k] obtain t
    where t: "qs ! k = fst (?f ?q t)" "uid_calls s \<le> uid_calls t" by blast
  have new: "fst (?f ?q t)
      = ?q\<lparr>q_options := q_options ?q @
           [\<lparr>o_id = gen (uid_calls t), o_texto = [],
             o_ativo = (countActiveOptions (q_options ?q) < MAX_ACTIVE_OPTIONS)\<rparr>]\<rparr>"
    using qi by (simp add: addOption_question_def Let_def createOptionDraft_def uniqueId_def not_le)
  have appended: "\<exists>m \<ge> uid_calls s. qs ! k
      = ?q\<lparr>q_options := q_options ?q @
           [\<lparr>o_id = gen m, o_texto = [],
             o_ativo = (countActiveOptions (q_options ?q) < MAX_ACTIVE_OPTIONS)\<rparr>]\<rparr>"
    using t new by (intro exI[of _ "uid_calls t"]) simp
  have warn: "error s1 = Some MSG_ADD_INACTIVE"
    if cap: "MAX_ACTIVE_OPTIONS \<le> countActiveOptions (q_options ?q)"
  proof (rule map_st_error_set[OF _ _ k run])
    show "error (snd (?f x t)) = error t \<or> error (snd (?f x t)) = Some MSG_ADD_INACTIVE" for x t
      by (simp add: addOption_question_def Let_def createOptionDraft_def uniqueId_def)
    show "\<forall>t. error (snd (?f ?q t)) = Some MSG_ADD_INACTIVE"
      using qi cap by (simp add: addOption_question_def Let_def createOptionDraft_def uniqueId_def)
  qed
  have msg: "MSG_ADD_INACTIVE \<noteq> []" by (simp add: MSG_ADD_INACTIVE_def js_def)
  have quiet: "error s1 = error s"
    if low: "\<forall>q \<in> set (questions s). q_id q = i \<longrightarrow>
               countActiveOptions (q_options q) < MAX_ACTIVE_OPTIONS"
  proof (rule map_st_error_kept[OF _ run])
    show "\<forall>x \<in> set (questions s). \<forall>t. error (snd (?f x t)) = error t"
      using low
      by (auto simp: addOption_question_def Let_def createOptionDraft_def uniqueId_def not_le)
  qed
  show ?thesis unfolding qs using len appended warn msg quiet by blast
qed

text \<open>
  The same draft: an option added to the first question (at the cap) and to the second
  (below it).
\<close>

theorem addOption_semantics_witness:
  "0 < length (questions full_draft) \<and> q_id (questions full_draft ! 0) = js ''q1'' \<and>
   MAX_ACTIVE_OPTIONS \<le> countActiveOptions (q_options (questions full_draft ! 0)) \<and>
   length (questions (handleAddOption example_gen (js ''q1'') full_draft)) = 2 \<and>
   questions (handleAddOption example_gen (js ''q1'') full_draft) ! 0
     = (questions full_draft ! 0)\<lparr>q_options := q_options (questions full_draft ! 0) @
          [\<lparr>o_id = example_gen 0, o_texto = [], o_ativo = False\<rparr>]\<rparr> \<and>
   error (handleAddOption example_gen (js ''q1'') full_draft) = Some MSG_ADD_INACTIVE \<and>
   1 < length (questions full_draft) \<and> q_id (questions full_draft ! 1) = js ''q2'' \<and>
   list_all (\<lambda>q. q_id q = js ''q2'' \<longrightarrow> countActiveOptions (q_options q) < MAX_ACTIVE_OPTIONS)
     (questions full_draft) \<and>
   questions (handleAddOption example_gen (js ''q2'') full_draft) ! 1
     = (questions full_draft ! 1)\<lparr>q_options := q_options (questions full_draft ! 1) @
          [\<lparr>o_id = example_gen 0, o_texto = [], o_ativo = True\<rparr>]\<rparr> \<and>
   error (handleAddOption example_gen (js ''q2'') full_draft) = error full_draft"
proof -
  have h: "0 < length (questions full_draft)" "q_id (questions full_draft ! 0) = js ''q1''"
    "MAX_ACTIVE_OPTIONS \<le> countActiveOptions (q_options (questions full_draft ! 0))"
    "1 < length (questions full_draft)" "q_id (questions full_draft ! 1) = js ''q2''"
    "\<forall>q \<in> set (questions full_draft). q_id q = js ''q2'' \<longrightarrow>
        countActiveOptions (q_options q) < MAX_ACTIVE_OPTIONS"
    "length (questions full_draft) = 2"
    by code_simp+
  note a = addOption_semantics[OF h(1) h(2), of example_gen]
  note b = addOption_semantics[OF h(4) h(5), of example_gen]
  from a h(3,7) have a1: "length (questions (handleAddOption example_gen (js ''q1'') full_draft)) = 2"
    "error (handleAddOption example_gen (js ''q1'') full_draft) = Some MSG_ADD_INACTIVE" by simp_all
  from b h(6) have b1: "error (handleAddOption example_gen (js ''q2'') full_draft) = error full_draft"
    by blast
  have a2: "questions (handleAddOption example_gen (js ''q1'') full_draft) ! 0
     = (questions full_draft ! 0)\<lparr>q_options := q_options (questions full_draft ! 0) @
          [\<lparr>o_id = example_gen 0, o_texto = [], o_ativo = False\<rparr>]\<rparr>" by code_simp
  have b2: "questions (handleAddOption example_gen (js ''q2'') full_draft) ! 1
     = (questions full_draft ! 1)\<lparr>q_options := q_options (questions full_draft ! 1) @
          [\<lparr>o_id = example_gen 0, o_texto = [], o_ativo = True\<rparr>]\<rparr>" by code_simp
  show ?thesis using h a1 a2 b1 b2 by (simp add: list_all_iff)
qed

lemma handleAddOption_frame:
  "length (questions (handleAddOption gen i s)) = length (questions s)"
  "k < length (questions s) \<Longrightarrow> q_id (questions s ! k) \<noteq> i \<Longrightarrow>
     questions (handleAddOption gen i s) ! k = questions s ! k"
proof -
  let ?f = "addOption_question gen i"
  obtain qs s1 where run: "map_st ?f (questions s) s = (qs, s1)"
    by (cases "map_st ?f (questions s) s")
  have qs: "questions (handleAddOption gen i s) = qs" using run by (simp add: handleAddOption_questions)
  show "length (questions (handleAddOption gen i s)) = length (questions s)"
    unfolding qs by (rule length_map_st[OF run])
  assume k: "k < length (questions s)" and other: "q_id (questions s ! k) \<noteq> i"
  from map_st_nth[OF run k] obtain t where "qs ! k = fst (?f (questions s ! k) t)" by blast
  with other show "questions (handleAddOption gen i s) ! k = questions s ! k"
    unfolding qs by (simp add: addOption_question_other)
qed

lemma updateOption_frame:
  "length (questions (updateOption i j u s)) = length (questions s)"
  "k < length (questions s) \<Longrightarrow> q_id (questions s ! k) \<noteq> i \<Longrightarrow>
     questions (updateOption i j u s) ! k = questions s ! k"
proof -
  let ?f = "updateOption_question i j u"
  obtain qs s1 where run: "map_st ?f (questions s) s = (qs, s1)"
    by (cases "map_st ?f (questions s) s")
  have qs: "questions (updateOption i j u s) = qs" using run by (simp add: updateOption_questions)
  show "length (questions (updateOption i j u s)) = length (questions s)"
    unfolding qs by (rule length_map_st[OF run])
  assume k: "k < length (questions s)" and other: "q_id (questions s ! k) \<noteq> i"
  from map_st_nth[OF run k] obtain t where "qs ! k = fst (?f (questions s ! k) t)" by blast
  with other show "questions (updateOption i j u s) ! k = questions s ! k"
    unfolding qs by (simp add: updateOption_question_other)
qed

lemma handleAddOption_unknown:
  assumes "\<forall>q \<in> set (questions s). q_id q \<noteq> i"
  shows "handleAddOption gen i s = s"
proof -
  have "map_st (addOption_question gen i) (questions s) s = (questions s, s)"
    by (rule map_st_same) (use assms in \<open>simp add: addOption_question_other\<close>)
  then show ?thesis by (simp add: handleAddOption_def)
qed

lemma updateOption_unknown:
  assumes "\<forall>q \<in> set (questions s). q_id q = i \<longrightarrow> (\<forall>opt \<in> set (q_options q). o_id opt \<noteq> j)"
  shows "updateOption i j u s = s"
proof -
  have "map_st (updateOption_question i j u) (questions s) s = (questions s, s)"
  proof (rule map_st_same, intro ballI allI)
    fix q t assume "q \<in> set (questions s)"
    with assms show "updateOption_question i j u q t = (q, t)"
      by (cases "q_id q = i")
         (simp_all add: updateOption_question_other updateOption_question_absent)
  qed
  then show ?thesis by (simp add: updateOption_def)
qed

text \<open>
  Claim C10. \<open>handleAddOption\<close>, \<open>handleRemoveOption\<close>, \<open>updateOption\<close> and
  \<open>updateQuestion\<close> keep every question in its place, and a question whose id is not
  \<open>questionId\<close> is returned as it was; \<open>handleRemoveQuestion\<close> keeps the questions with
  another id, in their order. When no question has the id, each of the five returns the
  state it was given; so does \<open>updateOption\<close> when no question with that id has an option
  with the id \<open>optionId\<close>.
\<close>

theorem mutation_frame:
  "(length (questions (handleAddOption gen i s)) = length (questions s) \<and>
    length (questions (handleRemoveOption i j s)) = length (questions s) \<and>
    length (questions (updateOption i j u s)) = length (questions s) \<and>
    length (questions (updateQuestion i uq s)) = length (questions s)) \<and>
   (\<forall>k < length (questions s). q_id (questions s ! k) \<noteq> i \<longrightarrow>
      questions (handleAddOption gen i s) ! k = questions s ! k \<and>
      questions (handleRemoveOption i j s) ! k = questions s ! k \<and>
      questions (updateOption i j u s) ! k = questions s ! k \<and>
      questions (updateQuestion i uq s) ! k = questions s ! k) \<and>
   filter (\<lambda>q. q_id q \<noteq> i) (questions (handleRemoveQuestion i s))
     = filter (\<lambda>q. q_id q \<noteq> i) (questions s) \<and>
   ((\<forall>q \<in> set (questions s). q_id q \<noteq> i) \<longrightarrow>
      handleAddOption gen i s = s \<and> handleRemoveOption i j s = s \<and> updateOption i j u s = s \<and>
      updateQuestion i uq s = s \<and> handleRemoveQuestion i s = s) \<and>
   ((\<forall>q \<in> set (questions s). q_id q = i \<longrightarrow> (\<forall>opt \<in> set (q_options q). o_id opt \<noteq> j)) \<longrightarrow>
      updateOption i j u s = s)"
proof -
  have lens: "length (questions (handleRemoveOption i j s)) = length (questions s)"
    "length (questions (updateQuestion i uq s)) = length (questions s)"
    by (simp_all add: handleRemoveOption_def updateQuestion_def)
  have others: "questions (handleRemoveOption i j s) ! k = questions s ! k"
    "questions (updateQuestion i uq s) ! k = questions s ! k"
    if "k < length (questions s)" "q_id (questions s ! k) \<noteq> i" for k
    using that by (simp_all add: handleRemoveOption_def updateQuestion_def)
  have rq: "filter (\<lambda>q. q_id q \<noteq> i) (questions (handleRemoveQuestion i s))
     = filter (\<lambda>q. q_id q \<noteq> i) (questions s)"
    by (simp add: handleRemoveQuestion_def Let_def)
  have unk: "handleRemoveOption i j s = s" "updateQuestion i uq s = s" "handleRemoveQuestion i s = s"
    if "\<forall>q \<in> set (questions s). q_id q \<noteq> i"
  proof -
    have "map (\<lambda>question. if q_id question = i
                  then question\<lparr>q_options :=
                     (if length (q_options question) > 1
                      then filter (\<lambda>option. o_id option \<noteq> j) (q_options question)
                      else q_options question)\<rparr>
                  else question) (questions s) = questions s"
      using that by (intro map_idI) simp
    then show "handleRemoveOption i j s = s" by (simp add: handleRemoveOption_def)
    have "map (\<lambda>question. if q_id question = i then spread_question question uq else question)
            (questions s) = questions s"
      using that by (intro map_idI) simp
    then show "updateQuestion i uq s = s" by (simp add: updateQuestion_def)
    have "filter (\<lambda>question. q_id question \<noteq> i) (questions s) = questions s"
      using that by (simp add: filter_id_conv)
    then show "handleRemoveQuestion i s = s" by (simp add: handleRemoveQuestion_def Let_def)
  qed
  have unk2: "updateOption i j u s = s" if "\<forall>q \<in> set (questions s). q_id q \<noteq> i"
    using that by (intro updateOption_unknown) simp
  show ?thesis
    using lens others rq unk unk2
      handleAddOption_frame[where gen = gen and i = i and s = s]
      updateOption_frame[where i = i and j = j and u = u and s = s]
      handleAddOption_unknown[where gen = gen and i = i and s = s]
      updateOption_unknown[where i = i and j = j and u = u and s = s]
    by blast
qed

text \<open>
  The example draft, whose questions are \<open>q1\<close> and \<open>q2\<close>: the mutations addressed to \<open>q1\<close>
  leave \<open>q2\<close> alone, and nothing answers to \<open>zz\<close>.
\<close>

theorem mutation_frame_witness:
  "1 < length (questions example_draft) \<and> q_id (questions example_draft ! 1) \<noteq> js ''q1'' \<and>
   questions (handleAddOption example_gen (js ''q1'') example_draft) ! 1 = questions example_draft ! 1 \<and>
   questions (handleRemoveOption (js ''q1'') (js ''a'') example_draft) ! 1 = questions example_draft ! 1 \<and>
   questions (updateOption (js ''q1'') (js ''a'') example_option_updates example_draft) ! 1
     = questions example_draft ! 1 \<and>
   questions (updateQuestion (js ''q1'') example_question_updates example_draft) ! 1
     = questions example_draft ! 1 \<and>
   questions (handleRemoveQuestion (js ''q1'') example_draft) = [questions example_draft ! 1] \<and>
   list_all (\<lambda>q. q_id q \<noteq> js ''zz'') (questions example_draft) \<and>
   handleAddOption example_gen (js ''zz'') example_draft = example_draft \<and>
   handleRemoveOption (js ''zz'') (js ''a'') example_draft = example_draft \<and>
   updateOption (js ''zz'') (js ''a'') example_option_updates example_draft = example_draft \<and>
   updateQuestion (js ''zz'') example_question_updates example_draft = example_draft \<and>
   handleRemoveQuestion (js ''zz'') example_draft = example_draft \<and>
   list_all (\<lambda>q. list_all (\<lambda>opt. o_id opt \<noteq> js ''zz'') (q_options q)) (questions example_draft) \<and>
   updateOption (js ''q1'') (js ''zz'') example_option_updates example_draft = example_draft"
proof -
  have h: "1 < length (questions example_draft)" "q_id (questions example_draft ! 1) \<noteq> js ''q1''"
    "\<forall>q \<in> set (questions example_draft). q_id q \<noteq> js ''zz''"
    "\<forall>q \<in> set (questions example_draft). \<forall>opt \<in> set (q_options q). o_id opt \<noteq> js ''zz''"
    by code_simp+
  note a = mutation_frame[of example_gen "js ''q1''" example_draft "js ''a''"
      example_option_updates example_question_updates]
  note b = mutation_frame[of example_gen "js ''zz''" example_draft "js ''a''"
      example_option_updates example_question_updates]
  note c = mutation_frame[of example_gen "js ''q1''" example_draft "js ''zz''"
      example_option_updates example_question_updates]
  from a h(1,2) have r1:
    "questions (handleAddOption example_gen (js ''q1'') example_draft) ! 1 = questions example_draft ! 1"
    "questions (handleRemoveOption (js ''q1'') (js ''a'') example_draft) ! 1 = questions example_draft ! 1"
    "questions (updateOption (js ''q1'') (js ''a'') example_option_updates example_draft) ! 1
       = questions example_draft ! 1"
    "questions (updateQuestion (js ''q1'') example_question_updates example_draft) ! 1
       = questions example_draft ! 1" by blast+
  have r2: "questions (handleRemoveQuestion (js ''q1'') example_draft) = [questions example_draft ! 1]"
    by code_simp
  from b h(3) have r3:
    "handleAddOption example_gen (js ''zz'') example_draft = example_draft"
    "handleRemoveOption (js ''zz'') (js ''a'') example_draft = example_draft"
    "updateOption (js ''zz'') (js ''a'') example_option_updates example_draft = example_draft"
    "updateQuestion (js ''zz'') example_question_updates example_draft = example_draft"
    "handleRemoveQuestion (js ''zz'') example_draft = example_draft" by blast+
  from c h(4) have r4:
    "updateOption (js ''q1'') (js ''zz'') example_option_updates example_draft = example_draft"
    by blast
  show ?thesis using h r1 r2 r3 r4 by (simp add: list_all_iff)
qed

section \<open>Clearing the form and loading the template\<close>

text \<open>
  Claim C7, as the page has it. The button \<open>Limpar\<close> restores the initial draft: empty
  title, empty description, \<open>ativo = true\<close>, empty expiry, no template, no message, and
  exactly one question, a new \<open>createQuestionDraft(1)\<close>, with an empty text, order 1 and
  exactly five options, each with an empty text and \<open>ativo = true\<close>.
\<close>

theorem limpar_restores_initial_draft:
  "titulo (limpar_onClick gen s) = [] \<and> descricao (limpar_onClick gen s) = [] \<and>
   ativo (limpar_onClick gen s) = True \<and> dataValidade (limpar_onClick gen s) = [] \<and>
   selectedTemplate (limpar_onClick gen s) = [] \<and>
   error (limpar_onClick gen s) = None \<and> success (limpar_onClick gen s) = None \<and>
   length (questions (limpar_onClick gen s)) = 1 \<and>
   map q_texto (questions (limpar_onClick gen s)) = [[]] \<and>
   map q_ordem (questions (limpar_onClick gen s)) = [1] \<and>
   map (\<lambda>q. map o_texto (q_options q)) (questions (limpar_onClick gen s)) = [[[], [], [], [], []]] \<and>
   map (\<lambda>q. map o_ativo (q_options q)) (questions (limpar_onClick gen s))
     = [[True, True, True, True, True]] \<and>
   questions (limpar_onClick gen s) = [fst (createQuestionDraft gen 1 (uid_calls s))]"
  by (simp add: limpar_onClick_def createQuestionDraft_def createOptionDraft_def uniqueId_def)

text \<open>
  Claim C7 as it is stated asks for exactly one option in that question. After
  \<open>Limpar\<close> on the example draft the question has five.
\<close>

theorem limpar_one_option_counterexample:
  "\<not> (titulo (limpar_onClick example_gen example_draft) = [] \<and>
       descricao (limpar_onClick example_gen example_draft) = [] \<and>
       ativo (limpar_onClick example_gen example_draft) = True \<and>
       dataValidade (limpar_onClick example_gen example_draft) = [] \<and>
       (\<exists>q opt. questions (limpar_onClick example_gen example_draft) = [q] \<and> q_texto q = [] \<and>
          q_options q = [opt] \<and> o_texto opt = [] \<and> o_ativo opt = True))"
  by (simp add: limpar_onClick_def createQuestionDraft_def createOptionDraft_def uniqueId_def)

lemma template_questions_run:
  "map_st (template_question gen) tis n = (qs, n') \<Longrightarrow>
     map q_texto qs = map fst tis \<and>
     map q_ordem qs = map (\<lambda>ti. int (snd ti) + 1) tis \<and>
     map (\<lambda>q. map o_texto (q_options q)) qs = replicate (length tis) TEMPLATE_OPTIONS \<and>
     map (\<lambda>q. map o_ativo (q_options q)) qs
       = replicate (length tis) (replicate (length TEMPLATE_OPTIONS) True)"
proof (induction tis arbitrary: n qs n')
  case Nil
  then show ?case by simp
next
  case (Cons ti tis)
  obtain texto index where ti: "ti = (texto, index)" by (cases ti)
  obtain q n1 where one: "template_question gen (texto, index) n = (q, n1)"
    by (cases "template_question gen (texto, index) n")
  obtain zs n2 where rest: "map_st (template_question gen) tis n1 = (zs, n2)"
    by (cases "map_st (template_question gen) tis n1")
  from Cons.prems ti one rest have qs: "qs = q # zs" by simp
  note f = template_question_fields[OF one]
  from Cons.IH[OF rest] f(1-4) show ?case unfolding qs ti by simp
qed

lemma template_ordens: "map (\<lambda>ti. int (snd ti) + 1) (zip TEMPLATE_QUESTIONS [0 ..< length TEMPLATE_QUESTIONS])
    = [1, 2, 3, 4, 5, 6, 7, 8, 9, 10]"
proof -
  have "map (\<lambda>ti. int (snd ti) + 1) (zip TEMPLATE_QUESTIONS [0 ..< length TEMPLATE_QUESTIONS])
      = map (\<lambda>i. int i + 1) (map snd (zip TEMPLATE_QUESTIONS [0 ..< length TEMPLATE_QUESTIONS]))"
    by (simp only: map_map o_def)
  also have "\<dots> = map (\<lambda>i. int i + 1) [0 ..< 10]"
    by (simp only: map_snd_zip length_upt diff_zero length_TEMPLATE_QUESTIONS)
  also have "\<dots> = [1, 2, 3, 4, 5, 6, 7, 8, 9, 10]" by code_simp
  finally show ?thesis .
qed

text \<open>
  Claim C9. Choosing \<open>supermarkets\<close> in the template select, from any state, replaces the
  questions by exactly ten questions whose \<open>ordem\<close> is 1 to 10 in list order and whose
  texts are \<open>TEMPLATE_QUESTIONS\<close>, each with exactly five options, all of them active and
  with the texts \<open>TEMPLATE_OPTIONS\<close>; and it sets the title to \<open>TEMPLATE_TITLE\<close>, the
  description to \<open>TEMPLATE_DESCRIPTION\<close> and \<open>ativo\<close> to true.
\<close>

theorem template_replaces_draft:
  "length (questions (template_onChange gen (js ''supermarkets'') s)) = 10 \<and>
   map q_ordem (questions (template_onChange gen (js ''supermarkets'') s))
     = [1, 2, 3, 4, 5, 6, 7, 8, 9, 10] \<and>
   map q_texto (questions (template_onChange gen (js ''supermarkets'') s)) = TEMPLATE_QUESTIONS \<and>
   map (\<lambda>q. length (q_options q)) (questions (template_onChange gen (js ''supermarkets'') s))
     = replicate 10 5 \<and>
   map (\<lambda>q. map o_ativo (q_options q)) (questions (template_onChange gen (js ''supermarkets'') s))
     = replicate 10 [True, True, True, True, True] \<and>
   map (\<lambda>q. map o_texto (q_options q)) (questions (template_onChange gen (js ''supermarkets'') s))
     = replicate 10 TEMPLATE_OPTIONS \<and>
   titulo (template_onChange gen (js ''supermarkets'') s) = TEMPLATE_TITLE \<and>
   descricao (template_onChange gen (js ''supermarkets'') s) = TEMPLATE_DESCRIPTION \<and>
   ativo (template_onChange gen (js ''supermarkets'') s) = True"
proof -
  let ?s' = "template_onChange gen (js ''supermarkets'') s"
  obtain qs n' where res: "builtQuestions gen (uid_calls s) = (qs, n')"
    by (cases "builtQuestions gen (uid_calls s)")
  have s': "questions ?s' = qs" "titulo ?s' = TEMPLATE_TITLE" "descricao ?s' = TEMPLATE_DESCRIPTION"
    "ativo ?s' = True"
    using res by (simp_all add: template_onChange_def)
  note r = template_questions_run[OF res[unfolded builtQuestions_def]]
  have lz: "length (zip TEMPLATE_QUESTIONS [0 ..< length TEMPLATE_QUESTIONS]) = 10"
    by (simp add: length_TEMPLATE_QUESTIONS)
  have len: "length qs = 10" by (rule length_builtQuestions[OF res])
  have ord: "map q_ordem qs = [1, 2, 3, 4, 5, 6, 7, 8, 9, 10]"
    using r template_ordens by simp
  have qtexts: "map q_texto qs = TEMPLATE_QUESTIONS"
    using r by (simp add: map_fst_zip)
  have act: "map (\<lambda>q. map o_ativo (q_options q)) qs = replicate 10 [True, True, True, True, True]"
  proof -
    have "replicate (length TEMPLATE_OPTIONS) True = [True, True, True, True, True]"
      unfolding length_TEMPLATE_OPTIONS by code_simp
    with r lz show ?thesis by (simp only:)
  qed
  have ots: "map (\<lambda>q. map o_texto (q_options q)) qs = replicate 10 TEMPLATE_OPTIONS"
    using r lz by (simp only:)
  have "map (\<lambda>q. length (q_options q)) qs = map length (map (\<lambda>q. map o_texto (q_options q)) qs)"
    by simp
  also have "\<dots> = replicate 10 5" unfolding ots by (simp add: length_TEMPLATE_OPTIONS)
  finally have lens: "map (\<lambda>q. length (q_options q)) qs = replicate 10 5" .
  show ?thesis unfolding s' using len ord qtexts act ots lens by simp
qed

section \<open>The submission pipeline\<close>

lemma created_question_ids_append [simp]:
  "created_question_ids (a @ b) = created_question_ids a @ created_question_ids b"
  by (simp add: created_question_ids_def)

lemma created_survey_ids_append [simp]:
  "created_survey_ids (a @ b) = created_survey_ids a @ created_survey_ids b"
  by (simp add: created_survey_ids_def)

lemma submit_options_success:
  "submit_options be qid os log = (log', Inr u) \<Longrightarrow>
     map fst log' = map fst log @ spec_option_calls qid os \<and>
     created_question_ids log' = created_question_ids log \<and>
     created_survey_ids log' = created_survey_ids log"
proof (induction os arbitrary: log)
  case Nil
  then show ?case by (simp add: spec_option_calls_def)
next
  case (Cons a os)
  show ?case
  proof (cases "trim (o_texto a) = []")
    case True
    with Cons.prems have "submit_options be qid os log = (log', Inr u)" by simp
    from Cons.IH[OF this] True show ?thesis by (simp add: spec_option_calls_def)
  next
    case False
    let ?c = "OptionCreate \<lparr>op_texto = trim (o_texto a), op_ativo = o_ativo a, op_questionId = qid\<rparr>"
    from False Cons.prems obtain i where ans: "be log ?c = Inr i"
      and rest: "submit_options be qid os (log @ [(?c, Inr i)]) = (log', Inr u)"
      by (auto simp: Let_def split: sum.splits)
    from Cons.IH[OF rest] False show ?thesis
      by (simp add: spec_option_calls_def created_question_ids_def created_survey_ids_def
          question_id_of_def survey_id_of_def)
  qed
qed

lemma submit_questions_success:
  "submit_questions be sid qs log = (log', Inr u) \<Longrightarrow>
     \<exists>ids. length ids = length qs \<and>
       created_question_ids log' = created_question_ids log @ ids \<and>
       map fst log' = map fst log @ spec_question_calls sid qs ids \<and>
       created_survey_ids log' = created_survey_ids log"
proof (induction qs arbitrary: log)
  case Nil
  then show ?case by simp
next
  case (Cons q qs)
  let ?c = "QuestionCreate \<lparr>qp_texto = trim (q_texto q), qp_ordem = q_ordem q, qp_surveyId = sid\<rparr>"
  from Cons.prems obtain i log1 v where ans: "be log ?c = Inr i"
    and opts: "submit_options be i (q_options q) (log @ [(?c, Inr i)]) = (log1, Inr v)"
    and rest: "submit_questions be sid qs log1 = (log', Inr u)"
    by (auto simp: Let_def split: sum.splits prod.splits)
  note o = submit_options_success[OF opts]
  from Cons.IH[OF rest] obtain ids where ids: "length ids = length qs"
    "created_question_ids log' = created_question_ids log1 @ ids"
    "map fst log' = map fst log1 @ spec_question_calls sid qs ids"
    "created_survey_ids log' = created_survey_ids log1" by blast
  have "length (i # ids) = length (q # qs)" using ids(1) by simp
  moreover have "created_question_ids log' = created_question_ids log @ (i # ids)"
    using ids(2) o by (simp add: created_question_ids_def question_id_of_def)
  moreover have "map fst log' = map fst log @ spec_question_calls sid (q # qs) (i # ids)"
    using ids(3) o by simp
  moreover have "created_survey_ids log' = created_survey_ids log"
    using ids(4) o by (simp add: created_survey_ids_def survey_id_of_def)
  ultimately show ?case by blast
qed

lemma stops_at_failure_single:
  "is_create c \<Longrightarrow> stops_at_failure [(c, Inl e)] (Inl e)"
  by (simp add: stops_at_failure_def)

lemma stops_at_failure_Cons:
  assumes "is_create c" "stops_at_failure ext r"
  shows "stops_at_failure ((c, Inr i) # ext) r"
proof (cases r)
  case (Inl e)
  with assms show ?thesis by (cases ext) (auto simp: stops_at_failure_def failed_def)
next
  case (Inr u)
  with assms show ?thesis by (simp add: stops_at_failure_def failed_def)
qed

lemma stops_at_failure_append:
  assumes "stops_at_failure a (Inr u)" "stops_at_failure b r"
  shows "stops_at_failure (a @ b) r"
proof (cases r)
  case (Inl e)
  with assms show ?thesis by (auto simp: stops_at_failure_def butlast_append)
next
  case (Inr v)
  with assms show ?thesis by (simp add: stops_at_failure_def)
qed

lemma submit_options_stops:
  "submit_options be qid os log = (log', r) \<Longrightarrow> \<exists>ext. log' = log @ ext \<and> stops_at_failure ext r"
proof (induction os arbitrary: log)
  case Nil
  then show ?case by (auto simp: stops_at_failure_def)
next
  case (Cons a os)
  show ?case
  proof (cases "trim (o_texto a) = []")
    case True
    with Cons.prems have "submit_options be qid os log = (log', r)" by simp
    from Cons.IH[OF this] show ?thesis .
  next
    case False
    let ?c = "OptionCreate \<lparr>op_texto = trim (o_texto a), op_ativo = o_ativo a, op_questionId = qid\<rparr>"
    show ?thesis
    proof (cases "be log ?c")
      case (Inl e)
      with False Cons.prems have "log' = log @ [(?c, Inl e)]" "r = Inl e"
        by (simp_all add: Let_def)
      then show ?thesis using stops_at_failure_single[of ?c e] by simp
    next
      case (Inr i)
      with False Cons.prems have "submit_options be qid os (log @ [(?c, Inr i)]) = (log', r)"
        by (simp add: Let_def)
      from Cons.IH[OF this] obtain ext where "log' = (log @ [(?c, Inr i)]) @ ext"
        "stops_at_failure ext r" by blast
      then have "log' = log @ ((?c, Inr i) # ext)" "stops_at_failure ((?c, Inr i) # ext) r"
        by (simp_all add: stops_at_failure_Cons)
      then show ?thesis by blast
    qed
  qed
qed

lemma submit_questions_stops:
  "submit_questions be sid qs log = (log', r) \<Longrightarrow> \<exists>ext. log' = log @ ext \<and> stops_at_failure ext r"
proof (induction qs arbitrary: log)
  case Nil
  then show ?case by (auto simp: stops_at_failure_def)
next
  case (Cons q qs)
  let ?c = "QuestionCreate \<lparr>qp_texto = trim (q_texto q), qp_ordem = q_ordem q, qp_surveyId = sid\<rparr>"
  show ?case
  proof (cases "be log ?c")
    case (Inl e)
    with Cons.prems have "log' = log @ [(?c, Inl e)]" "r = Inl e" by (simp_all add: Let_def)
    then show ?thesis using stops_at_failure_single[of ?c e] by simp
  next
    case (Inr i)
    obtain log1 r1 where opts: "submit_options be i (q_options q) (log @ [(?c, Inr i)]) = (log1, r1)"
      by (cases "submit_options be i (q_options q) (log @ [(?c, Inr i)])")
    from submit_options_stops[OF opts] obtain ext1 where ext1:
      "log1 = (log @ [(?c, Inr i)]) @ ext1" "stops_at_failure ext1 r1" by blast
    show ?thesis
    proof (cases r1)
      case (Inl e)
      with Inr opts Cons.prems have "log' = log1" "r = Inl e" by (simp_all add: Let_def)
      with ext1 Inl have "log' = log @ ((?c, Inr i) # ext1)"
        "stops_at_failure ((?c, Inr i) # ext1) r"
        by (simp_all add: stops_at_failure_Cons)
      then show ?thesis by blast
    next
      case (Inr u)
      with \<open>be log ?c = Inr i\<close> opts Cons.prems
      have "submit_questions be sid qs log1 = (log', r)" by (simp add: Let_def)
      from Cons.IH[OF this] obtain ext2 where ext2: "log' = log1 @ ext2" "stops_at_failure ext2 r"
        by blast
      have "stops_at_failure ((?c, Inr i) # ext1) (Inr u)"
        using ext1(2) Inr by (simp add: stops_at_failure_Cons)
      from stops_at_failure_append[OF this ext2(2)] ext1(1) ext2(1)
      have "log' = log @ (((?c, Inr i) # ext1) @ ext2)"
        "stops_at_failure (((?c, Inr i) # ext1) @ ext2) r" by simp_all
      then show ?thesis by blast
    qed
  qed
qed

lemma submit_try_stops:
  assumes "submit_try be toISO s = (log, r)"
  shows "(log = [] \<and> (\<exists>e. r = Inl e)) \<or> stops_at_failure log r"
proof (cases "if dataValidade s \<noteq> [] then map_sum (\<lambda>e. e) Some (toISO (dataValidade s)) else Inr None")
  case (Inl e)
  with assms have "log = []" "r = Inl e" by (simp_all add: submit_try_def)
  then show ?thesis by blast
next
  case (Inr dv)
  let ?c = "SurveyCreate \<lparr>sp_titulo = trim (titulo s),
              sp_descricao = (if trim (descricao s) \<noteq> [] then Some (trim (descricao s)) else None),
              sp_ativo = ativo s, sp_dataValidade = dv\<rparr>"
  show ?thesis
  proof (cases "be [] ?c")
    case (Inl e)
    with Inr assms have "log = [(?c, Inl e)]" "r = Inl e" by (auto simp: submit_try_def Let_def split: if_splits)
    then show ?thesis using stops_at_failure_single[of ?c e] by simp
  next
    case (Inr sid)
    obtain log1 r1 where qs: "submit_questions be sid (questions s) [(?c, Inr sid)] = (log1, r1)"
      by (cases "submit_questions be sid (questions s) [(?c, Inr sid)]")
    from submit_questions_stops[OF qs] obtain ext where ext:
      "log1 = [(?c, Inr sid)] @ ext" "stops_at_failure ext r1" by blast
    have st: "stops_at_failure log1 r1" using ext by (simp add: stops_at_failure_Cons)
    show ?thesis
    proof (cases r1)
      case (Inl e)
      with \<open>_ = Inr dv\<close> Inr qs assms have "log = log1" "r = Inl e"
        by (auto simp: submit_try_def Let_def split: if_splits)
      with st Inl show ?thesis by (simp add: stops_at_failure_def)
    next
      case (Inr u)
      with \<open>_ = Inr dv\<close> \<open>be [] ?c = Inr sid\<close> qs assms have "log = log1" "r = Inr sid"
        by (auto simp: submit_try_def Let_def split: if_splits)
      with st Inr show ?thesis by (simp add: stops_at_failure_def)
    qed
  qed
qed

lemma submit_options_total:
  assumes "\<forall>l c. \<not> isl (be l c)"
  shows "\<exists>log'. submit_options be qid os log = (log', Inr ())"
proof (induction os arbitrary: log)
  case Nil
  then show ?case by simp
next
  case (Cons a os)
  let ?c = "OptionCreate \<lparr>op_texto = trim (o_texto a), op_ativo = o_ativo a, op_questionId = qid\<rparr>"
  from assms have "\<not> isl (be log ?c)" by blast
  then obtain i where "be log ?c = Inr i" by (cases "be log ?c") auto
  with Cons.IH[of log] Cons.IH[of "log @ [(?c, Inr i)]"] show ?case by (simp add: Let_def)
qed

lemma submit_questions_total:
  assumes "\<forall>l c. \<not> isl (be l c)"
  shows "\<exists>log'. submit_questions be sid qs log = (log', Inr ())"
proof (induction qs arbitrary: log)
  case Nil
  then show ?case by simp
next
  case (Cons q qs)
  let ?c = "QuestionCreate \<lparr>qp_texto = trim (q_texto q), qp_ordem = q_ordem q, qp_surveyId = sid\<rparr>"
  from assms have "\<not> isl (be log ?c)" by blast
  then obtain i where ans: "be log ?c = Inr i" by (cases "be log ?c") auto
  from submit_options_total[OF assms] obtain log1 where
    opts: "submit_options be i (q_options q) (log @ [(?c, Inr i)]) = (log1, Inr ())" by blast
  from Cons.IH[of log1] ans opts show ?case by (simp add: Let_def)
qed

lemma submit_try_total:
  assumes be: "\<forall>l c. \<not> isl (be l c)"
    and dv: "dataValidade s = [] \<or> \<not> isl (toISO (dataValidade s))"
  shows "\<exists>log sid. submit_try be toISO s = (log, Inr sid)"
proof -
  let ?d = "if dataValidade s \<noteq> [] then map_sum (\<lambda>e. e) Some (toISO (dataValidade s)) else Inr None"
  have "\<exists>v. ?d = Inr v"
  proof (cases "dataValidade s = []")
    case True
    then show ?thesis by simp
  next
    case False
    with dv show ?thesis by (cases "toISO (dataValidade s)") auto
  qed
  then obtain v where d: "?d = Inr v" by blast
  let ?c = "SurveyCreate \<lparr>sp_titulo = trim (titulo s),
              sp_descricao = (if trim (descricao s) \<noteq> [] then Some (trim (descricao s)) else None),
              sp_ativo = ativo s, sp_dataValidade = v\<rparr>"
  from be have "\<not> isl (be [] ?c)" by blast
  then obtain sid where ans: "be [] ?c = Inr sid" by (cases "be [] ?c") auto
  from submit_questions_total[OF be] obtain log1 where
    qs: "submit_questions be sid (questions s) [(?c, Inr sid)] = (log1, Inr ())" by blast
  have "submit_try be toISO s = (log1, Inr sid)"
    unfolding submit_try_def d using ans qs by (simp add: Let_def)
  then show ?thesis by blast
qed

lemma submit_try_success:
  assumes "submit_try be toISO s = (log, Inr sid)"
  shows "created_survey_ids log = [sid] \<and>
         length (created_question_ids log) = length (questions s) \<and>
         map fst log = spec_calls toISO s sid (created_question_ids log)"
proof -
  let ?d = "if dataValidade s \<noteq> [] then map_sum (\<lambda>e. e) Some (toISO (dataValidade s)) else Inr None"
  from assms obtain v where d: "?d = Inr v"
    by (cases ?d) (auto simp: submit_try_def)
  let ?c = "SurveyCreate \<lparr>sp_titulo = trim (titulo s),
              sp_descricao = (if trim (descricao s) \<noteq> [] then Some (trim (descricao s)) else None),
              sp_ativo = ativo s, sp_dataValidade = v\<rparr>"
  have c: "?c = spec_survey_call toISO s"
    using d by (cases "toISO (dataValidade s)") (auto simp: spec_survey_call_def split: if_splits)
  from assms d obtain u where ans: "be [] ?c = Inr sid"
    and qs: "submit_questions be sid (questions s) [(?c, Inr sid)] = (log, Inr u)"
    unfolding submit_try_def d by (auto simp: Let_def split: sum.splits prod.splits)
  from submit_questions_success[OF qs] obtain ids where ids:
    "length ids = length (questions s)"
    "created_question_ids log = created_question_ids [(?c, Inr sid)] @ ids"
    "map fst log = map fst [(?c, Inr sid)] @ spec_question_calls sid (questions s) ids"
    "created_survey_ids log = created_survey_ids [(?c, Inr sid)]" by auto
  have q0: "created_question_ids [(?c, Inr sid)] = []"
    by (simp add: created_question_ids_def question_id_of_def)
  have s0: "created_survey_ids [(?c, Inr sid)] = [sid]"
    by (simp add: created_survey_ids_def survey_id_of_def)
  show ?thesis
    using ids unfolding q0 s0 spec_calls_def c[symmetric] by simp
qed

lemma handleSubmit_valid:
  assumes "trim (titulo s) \<noteq> []"
    and "\<forall>q \<in> set (questions s). trim (q_texto q) \<noteq> []"
    and "\<forall>q \<in> set (questions s). countActiveOptions (q_options q) \<le> MAX_ACTIVE_OPTIONS"
  shows "handleSubmit be toISO s =
           (case submit_try be toISO s of
              (log, Inr createdSurvey) \<Rightarrow>
                (log, s\<lparr>error := None, success := Some MSG_CREATED, isSaving := False,
                        navigated := Some createdSurvey\<rparr>)
            | (log, Inl err) \<Rightarrow>
                (log, s\<lparr>error := Some (parseApiError err), success := None, isSaving := False\<rparr>))"
proof -
  have a: "list_all (\<lambda>question. trim (q_texto question) \<noteq> []) (questions s)"
    using assms(2) by (simp add: list_all_iff)
  have b: "\<not> list_ex (\<lambda>question. countActiveOptions (q_options question) > MAX_ACTIVE_OPTIONS) (questions s)"
    using assms(3) by (auto simp: list_ex_iff not_less)
  show ?thesis
    unfolding handleSubmit_def Let_def using assms(1) a b
    by (simp split: prod.splits sum.splits)
qed

lemma kinds_spec_option_calls:
  "\<forall>opt \<in> set os. trim (o_texto opt) \<noteq> [] \<Longrightarrow>
     map kind_of (spec_option_calls i os) = replicate (length os) OptionCall"
  by (induction os) (auto simp: spec_option_calls_def)

lemma parseApiError_nonempty: "parseApiError e \<noteq> []"
proof (cases e)
  case (AxiosError response code)
  have d: "\<And>m b. b \<noteq> [] \<Longrightarrow> or_else m b \<noteq> []"
    by (simp add: or_else_def split: option.splits)
  show ?thesis
    unfolding AxiosError parseApiError.simps Let_def
    by (simp add: d js_def split: option.splits)
next
  case (JsError m)
  then show ?thesis by (simp add: or_else_def js_def)
next
  case NotAnError
  then show ?thesis by (simp add: js_def)
qed

lemma submit_log_nonempty:
  assumes "submit_log be toISO s \<noteq> []"
  shows "trim (titulo s) \<noteq> [] \<and> (\<forall>q \<in> set (questions s). trim (q_texto q) \<noteq> []) \<and>
         (\<forall>q \<in> set (questions s). countActiveOptions (q_options q) \<le> MAX_ACTIVE_OPTIONS)"
  using assms
  by (auto simp: submit_log_def handleSubmit_def Let_def list_all_iff list_ex_iff not_less
      split: if_splits)

lemma handleSubmit_draft_unchanged: "draft (submit_state be toISO s) = draft s"
  by (simp add: draft_def submit_state_def handleSubmit_draft)

text \<open>
  Claim C2. A draft that passes validation: if no create call and no date conversion
  throws, \<open>handleSubmit\<close> ends in success; and in every successful submission the log has
  exactly one survey-create exchange, which comes first, then for each question in draft
  order one question-create call carrying the id the survey-create call returned, followed
  at once by one option-create call, carrying the id that question-create call returned,
  for each option in draft order whose trimmed text is not empty. Options with an empty or
  whitespace-only text are skipped. With two questions of three non-empty options each the
  calls are survey, question, three options, question, three options.
\<close>

theorem submission_call_order:
  assumes "trim (titulo s) \<noteq> []"
    and "\<forall>q \<in> set (questions s). trim (q_texto q) \<noteq> []"
    and "\<forall>q \<in> set (questions s). countActiveOptions (q_options q) \<le> MAX_ACTIVE_OPTIONS"
  shows
    "((\<forall>l c. \<not> isl (be l c)) \<and> (dataValidade s = [] \<or> \<not> isl (toISO (dataValidade s)))
        \<longrightarrow> success (submit_state be toISO s) = Some MSG_CREATED) \<and>
     (success (submit_state be toISO s) \<noteq> None \<longrightarrow>
        (\<exists>sid. created_survey_ids (submit_log be toISO s) = [sid] \<and>
               navigated (submit_state be toISO s) = Some sid \<and>
               length (created_question_ids (submit_log be toISO s)) = length (questions s) \<and>
               map fst (submit_log be toISO s)
                 = spec_calls toISO s sid (created_question_ids (submit_log be toISO s)))) \<and>
     (success (submit_state be toISO s) \<noteq> None \<and> length (questions s) = 2 \<and>
      (\<forall>q \<in> set (questions s). length (q_options q) = 3 \<and>
          (\<forall>opt \<in> set (q_options q). trim (o_texto opt) \<noteq> []))
        \<longrightarrow> map (\<lambda>x. kind_of (fst x)) (submit_log be toISO s)
              = [SurveyCall, QuestionCall, OptionCall, OptionCall, OptionCall,
                 QuestionCall, OptionCall, OptionCall, OptionCall])"
proof -
  note hs = handleSubmit_valid[OF assms, of be toISO]
  obtain log r where tr: "submit_try be toISO s = (log, r)" by (cases "submit_try be toISO s")
  have total: "success (submit_state be toISO s) = Some MSG_CREATED"
    if "\<forall>l c. \<not> isl (be l c)" "dataValidade s = [] \<or> \<not> isl (toISO (dataValidade s))"
  proof -
    from submit_try_total[of be s toISO, OF that] obtain log1 sid where "submit_try be toISO s = (log1, Inr sid)"
      by blast
    then show ?thesis by (simp add: submit_state_def hs)
  qed
  have shape: "\<exists>sid. created_survey_ids (submit_log be toISO s) = [sid] \<and>
               navigated (submit_state be toISO s) = Some sid \<and>
               length (created_question_ids (submit_log be toISO s)) = length (questions s) \<and>
               map fst (submit_log be toISO s)
                 = spec_calls toISO s sid (created_question_ids (submit_log be toISO s))"
    if "success (submit_state be toISO s) \<noteq> None"
  proof -
    from that tr obtain sid where r: "r = Inr sid"
      by (cases r) (auto simp: submit_state_def hs)
    from submit_try_success[OF tr[unfolded r]] tr r show ?thesis
      by (simp add: submit_state_def submit_log_def hs)
  qed
  have kinds: "map (\<lambda>x. kind_of (fst x)) (submit_log be toISO s)
              = [SurveyCall, QuestionCall, OptionCall, OptionCall, OptionCall,
                 QuestionCall, OptionCall, OptionCall, OptionCall]"
    if ok: "success (submit_state be toISO s) \<noteq> None" and two: "length (questions s) = 2"
      and three: "\<forall>q \<in> set (questions s). length (q_options q) = 3 \<and>
          (\<forall>opt \<in> set (q_options q). trim (o_texto opt) \<noteq> [])"
  proof -
    from shape[OF ok] obtain sid where
      len: "length (created_question_ids (submit_log be toISO s)) = length (questions s)" and
      calls: "map fst (submit_log be toISO s)
                 = spec_calls toISO s sid (created_question_ids (submit_log be toISO s))" by blast
    from two obtain q1 q2 where qs: "questions s = [q1, q2]"
      by (cases "questions s"; cases "tl (questions s)") auto
    from len two obtain i1 i2 where ids: "created_question_ids (submit_log be toISO s) = [i1, i2]"
      by (cases "created_question_ids (submit_log be toISO s)";
          cases "tl (created_question_ids (submit_log be toISO s))") auto
    from three qs have k1: "map kind_of (spec_option_calls i1 (q_options q1)) = replicate 3 OptionCall"
      and k2: "map kind_of (spec_option_calls i2 (q_options q2)) = replicate 3 OptionCall"
      using kinds_spec_option_calls[of "q_options q1" i1] kinds_spec_option_calls[of "q_options q2" i2]
      by simp_all
    have "map (\<lambda>x. kind_of (fst x)) (submit_log be toISO s)
            = map kind_of (map fst (submit_log be toISO s))" by simp
    also have "\<dots> = map kind_of (spec_calls toISO s sid [i1, i2])" by (simp only: calls ids)
    also have "\<dots> = [SurveyCall, QuestionCall, OptionCall, OptionCall, OptionCall,
                 QuestionCall, OptionCall, OptionCall, OptionCall]"
      using k1 k2 by (simp add: spec_calls_def spec_survey_call_def qs numeral_3_eq_3)
    finally show ?thesis .
  qed
  show ?thesis using total shape kinds by blast
qed

text \<open>
  The example draft (two questions, three options each) against a backend that numbers
  the entities it creates from 100.
\<close>

theorem submission_call_order_witness:
  "trim (titulo example_draft) \<noteq> [] \<and>
   list_all (\<lambda>q. trim (q_texto q) \<noteq> []) (questions example_draft) \<and>
   list_all (\<lambda>q. countActiveOptions (q_options q) \<le> MAX_ACTIVE_OPTIONS) (questions example_draft) \<and>
   (\<forall>l c. \<not> isl (example_backend l c)) \<and> dataValidade example_draft = [] \<and>
   length (questions example_draft) = 2 \<and>
   list_all (\<lambda>q. length (q_options q) = 3 \<and> list_all (\<lambda>opt. trim (o_texto opt) \<noteq> []) (q_options q))
     (questions example_draft) \<and>
   success (submit_state example_backend example_toISO example_draft) = Some MSG_CREATED \<and>
   created_survey_ids (submit_log example_backend example_toISO example_draft) = [100] \<and>
   navigated (submit_state example_backend example_toISO example_draft) = Some 100 \<and>
   created_question_ids (submit_log example_backend example_toISO example_draft) = [101, 105] \<and>
   map fst (submit_log example_backend example_toISO example_draft)
     = spec_calls example_toISO example_draft 100 [101, 105] \<and>
   map (\<lambda>x. kind_of (fst x)) (submit_log example_backend example_toISO example_draft)
     = [SurveyCall, QuestionCall, OptionCall, OptionCall, OptionCall,
        QuestionCall, OptionCall, OptionCall, OptionCall]"
proof -
  have h1: "trim (titulo example_draft) \<noteq> []" by code_simp
  have h2: "\<forall>q \<in> set (questions example_draft). trim (q_texto q) \<noteq> []" by code_simp
  have h3: "\<forall>q \<in> set (questions example_draft).
              countActiveOptions (q_options q) \<le> MAX_ACTIVE_OPTIONS" by code_simp
  have b: "\<forall>l c. \<not> isl (example_backend l c)" by (simp add: example_backend_def)
  have d: "dataValidade example_draft = []" by (simp add: example_draft_def)
  have two: "length (questions example_draft) = 2" by (simp add: example_draft_def)
  have three: "\<forall>q \<in> set (questions example_draft). length (q_options q) = 3 \<and>
          (\<forall>opt \<in> set (q_options q). trim (o_texto opt) \<noteq> [])" by code_simp
  note t = submission_call_order[OF h1 h2 h3, of example_backend example_toISO]
  from t b d have ok: "success (submit_state example_backend example_toISO example_draft)
                         = Some MSG_CREATED" by blast
  then have ok': "success (submit_state example_backend example_toISO example_draft) \<noteq> None"
    by simp
  from t ok' two three
  have kinds: "map (\<lambda>x. kind_of (fst x)) (submit_log example_backend example_toISO example_draft)
     = [SurveyCall, QuestionCall, OptionCall, OptionCall, OptionCall,
        QuestionCall, OptionCall, OptionCall, OptionCall]" by blast
  have e1: "created_survey_ids (submit_log example_backend example_toISO example_draft) = [100]"
    by code_simp
  have e2: "navigated (submit_state example_backend example_toISO example_draft) = Some 100"
    by code_simp
  have e3: "created_question_ids (submit_log example_backend example_toISO example_draft) = [101, 105]"
    by code_simp
  from t ok' e1 e2 e3
  have e4: "map fst (submit_log example_backend example_toISO example_draft)
     = spec_calls example_toISO example_draft 100 [101, 105]" by auto
  show ?thesis
    using h1 h2 h3 b d two three ok kinds e1 e2 e3 e4 by (simp add: list_all_iff)
qed

text \<open>
  Claim C3. When the title trims to the empty string, or some question's text trims to
  the empty string, or some question has more than \<open>MAX_ACTIVE_OPTIONS\<close> active options,
  \<open>handleSubmit\<close> issues no call and sets a validation message, and the draft stays as it
  was. The checks run in the order title, question texts, cap, and the first one that
  fails gives the message; the three messages are different.
\<close>

theorem validation_blocks_submission:
  "(trim (titulo s) = [] \<longrightarrow>
      handleSubmit be toISO s = ([], s\<lparr>error := Some MSG_TITLE, success := None\<rparr>)) \<and>
   (trim (titulo s) \<noteq> [] \<and> (\<exists>q \<in> set (questions s). trim (q_texto q) = []) \<longrightarrow>
      handleSubmit be toISO s = ([], s\<lparr>error := Some MSG_QUESTION_TEXT, success := None\<rparr>)) \<and>
   (trim (titulo s) \<noteq> [] \<and> (\<forall>q \<in> set (questions s). trim (q_texto q) \<noteq> []) \<and>
    (\<exists>q \<in> set (questions s). countActiveOptions (q_options q) > MAX_ACTIVE_OPTIONS) \<longrightarrow>
      handleSubmit be toISO s = ([], s\<lparr>error := Some MSG_TOO_MANY, success := None\<rparr>)) \<and>
   (trim (titulo s) = [] \<or> (\<exists>q \<in> set (questions s). trim (q_texto q) = []) \<or>
    (\<exists>q \<in> set (questions s). countActiveOptions (q_options q) > MAX_ACTIVE_OPTIONS) \<longrightarrow>
      submit_log be toISO s = [] \<and>
      error (submit_state be toISO s) \<in> {Some MSG_TITLE, Some MSG_QUESTION_TEXT, Some MSG_TOO_MANY} \<and>
      draft (submit_state be toISO s) = draft s) \<and>
   MSG_TITLE \<noteq> MSG_QUESTION_TEXT \<and> MSG_TITLE \<noteq> MSG_TOO_MANY \<and> MSG_QUESTION_TEXT \<noteq> MSG_TOO_MANY"
proof -
  have a: "handleSubmit be toISO s = ([], s\<lparr>error := Some MSG_TITLE, success := None\<rparr>)"
    if "trim (titulo s) = []"
    using that by (simp add: handleSubmit_def)
  have b: "handleSubmit be toISO s = ([], s\<lparr>error := Some MSG_QUESTION_TEXT, success := None\<rparr>)"
    if "trim (titulo s) \<noteq> []" "\<exists>q \<in> set (questions s). trim (q_texto q) = []"
    using that by (auto simp: handleSubmit_def list_all_iff)
  have c: "handleSubmit be toISO s = ([], s\<lparr>error := Some MSG_TOO_MANY, success := None\<rparr>)"
    if "trim (titulo s) \<noteq> []" "\<forall>q \<in> set (questions s). trim (q_texto q) \<noteq> []"
      "\<exists>q \<in> set (questions s). countActiveOptions (q_options q) > MAX_ACTIVE_OPTIONS"
    using that by (auto simp: handleSubmit_def list_all_iff list_ex_iff)
  have d: "submit_log be toISO s = [] \<and>
      error (submit_state be toISO s) \<in> {Some MSG_TITLE, Some MSG_QUESTION_TEXT, Some MSG_TOO_MANY} \<and>
      draft (submit_state be toISO s) = draft s"
    if bad: "trim (titulo s) = [] \<or> (\<exists>q \<in> set (questions s). trim (q_texto q) = []) \<or>
        (\<exists>q \<in> set (questions s). countActiveOptions (q_options q) > MAX_ACTIVE_OPTIONS)"
  proof -
    consider "trim (titulo s) = []"
      | "trim (titulo s) \<noteq> []" "\<exists>q \<in> set (questions s). trim (q_texto q) = []"
      | "trim (titulo s) \<noteq> []" "\<forall>q \<in> set (questions s). trim (q_texto q) \<noteq> []"
        "\<exists>q \<in> set (questions s). countActiveOptions (q_options q) > MAX_ACTIVE_OPTIONS"
      using bad by blast
    then show ?thesis
    proof cases
      case 1
      from a[OF 1] show ?thesis by (simp add: submit_log_def submit_state_def draft_def)
    next
      case 2
      from b[OF 2] show ?thesis by (simp add: submit_log_def submit_state_def draft_def)
    next
      case 3
      from c[OF 3] show ?thesis by (simp add: submit_log_def submit_state_def draft_def)
    qed
  qed
  have m: "MSG_TITLE \<noteq> MSG_QUESTION_TEXT" "MSG_TITLE \<noteq> MSG_TOO_MANY"
    "MSG_QUESTION_TEXT \<noteq> MSG_TOO_MANY"
    by (simp_all add: MSG_TITLE_def MSG_QUESTION_TEXT_def MSG_TOO_MANY_def js_def)
  show ?thesis using a b c d m by blast
qed

text \<open>
  A draft with a whitespace-only title, one with a blank question and one with six active
  options in a question.
\<close>

theorem validation_blocks_submission_witness:
  "trim (titulo blank_title_draft) = [] \<and>
   handleSubmit example_backend example_toISO blank_title_draft
     = ([], blank_title_draft\<lparr>error := Some MSG_TITLE, success := None\<rparr>) \<and>
   trim (titulo blank_question_draft) \<noteq> [] \<and>
   list_ex (\<lambda>q. trim (q_texto q) = []) (questions blank_question_draft) \<and>
   handleSubmit example_backend example_toISO blank_question_draft
     = ([], blank_question_draft\<lparr>error := Some MSG_QUESTION_TEXT, success := None\<rparr>) \<and>
   trim (titulo crowded_draft) \<noteq> [] \<and>
   list_all (\<lambda>q. trim (q_texto q) \<noteq> []) (questions crowded_draft) \<and>
   list_ex (\<lambda>q. countActiveOptions (q_options q) > MAX_ACTIVE_OPTIONS) (questions crowded_draft) \<and>
   handleSubmit example_backend example_toISO crowded_draft
     = ([], crowded_draft\<lparr>error := Some MSG_TOO_MANY, success := None\<rparr>) \<and>
   submit_log example_backend example_toISO crowded_draft = [] \<and>
   draft (submit_state example_backend example_toISO crowded_draft) = draft crowded_draft"
proof -
  have t1: "trim (titulo blank_title_draft) = []" by code_simp
  have q1: "trim (titulo blank_question_draft) \<noteq> []" by code_simp
  have q2: "\<exists>q \<in> set (questions blank_question_draft). trim (q_texto q) = []" by code_simp
  have c1: "trim (titulo crowded_draft) \<noteq> []" by code_simp
  have c2: "\<forall>q \<in> set (questions crowded_draft). trim (q_texto q) \<noteq> []" by code_simp
  have c3: "\<exists>q \<in> set (questions crowded_draft).
              countActiveOptions (q_options q) > MAX_ACTIVE_OPTIONS" by code_simp
  note a = validation_blocks_submission[of blank_title_draft example_backend example_toISO]
  note b = validation_blocks_submission[of blank_question_draft example_backend example_toISO]
  note c = validation_blocks_submission[of crowded_draft example_backend example_toISO]
  from a t1 have r1: "handleSubmit example_backend example_toISO blank_title_draft
     = ([], blank_title_draft\<lparr>error := Some MSG_TITLE, success := None\<rparr>)" by blast
  from b q1 q2 have r2: "handleSubmit example_backend example_toISO blank_question_draft
     = ([], blank_question_draft\<lparr>error := Some MSG_QUESTION_TEXT, success := None\<rparr>)" by blast
  from c c1 c2 c3 have r3: "handleSubmit example_backend example_toISO crowded_draft
     = ([], crowded_draft\<lparr>error := Some MSG_TOO_MANY, success := None\<rparr>)" by blast
  from c c3 have r4: "submit_log example_backend example_toISO crowded_draft = []"
    "draft (submit_state example_backend example_toISO crowded_draft) = draft crowded_draft"
    by blast+
  show ?thesis using t1 q1 q2 c1 c2 c3 r1 r2 r3 r4 by (simp add: list_all_iff list_ex_iff)
qed

text \<open>
  Claim C6. When a create call of a submission throws \<open>e\<close>, that call is the last one
  issued and every call before it succeeded; every call issued is a create (no update or
  delete follows the failure); the page shows \<open>parseApiError e\<close>, which is not the
  empty string; no success is reported and the page does not navigate; and the draft
  (title, description, active flag, expiry, questions and options) is what it was.
\<close>

theorem failure_semantics:
  assumes fail: "(c, Inl e) \<in> set (submit_log be toISO s)"
  shows "submit_log be toISO s = butlast (submit_log be toISO s) @ [(c, Inl e)] \<and>
         (\<forall>x \<in> set (butlast (submit_log be toISO s)). \<not> failed x) \<and>
         (\<forall>x \<in> set (submit_log be toISO s). is_create (fst x)) \<and>
         error (submit_state be toISO s) = Some (parseApiError e) \<and>
         parseApiError e \<noteq> [] \<and>
         success (submit_state be toISO s) = None \<and>
         navigated (submit_state be toISO s) = navigated s \<and>
         isSaving (submit_state be toISO s) = False \<and>
         draft (submit_state be toISO s) = draft s"
proof -
  let ?log = "submit_log be toISO s"
  from fail have ne: "?log \<noteq> []" by auto
  note v = submit_log_nonempty[OF ne]
  note hs = handleSubmit_valid[of s be toISO, OF v[THEN conjunct1] v[THEN conjunct2, THEN conjunct1]
      v[THEN conjunct2, THEN conjunct2]]
  obtain log r where tr: "submit_try be toISO s = (log, r)" by (cases "submit_try be toISO s")
  have log: "?log = log" using tr by (cases r) (simp_all add: submit_log_def hs)
  from submit_try_stops[OF tr] ne log have st: "stops_at_failure log r" by auto
  have f: "failed (c, Inl e)" by (simp add: failed_def)
  obtain e' where r: "r = Inl e'"
  proof (cases r)
    case (Inl a)
    then show ?thesis using that by blast
  next
    case (Inr sid)
    with st have "\<forall>x \<in> set log. \<not> failed x" by (simp add: stops_at_failure_def list_all_iff)
    with fail log f show ?thesis by auto
  qed
  from st r have creates: "\<forall>x \<in> set log. is_create (fst x)"
    and oks: "\<forall>x \<in> set (butlast log). \<not> failed x" and last: "snd (last log) = Inl e'"
    and ne': "log \<noteq> []"
    by (simp_all add: stops_at_failure_def list_all_iff)
  from ne' have split: "log = butlast log @ [last log]" by simp
  from fail log have "(c, Inl e) \<in> set (butlast log @ [last log])" using split by simp
  with oks f have lastc: "last log = (c, Inl e)" by auto
  with last have e: "e' = e" by simp
  have err: "error (submit_state be toISO s) = Some (parseApiError e)"
    and suc: "success (submit_state be toISO s) = None"
    and nav: "navigated (submit_state be toISO s) = navigated s"
    and sav: "isSaving (submit_state be toISO s) = False"
    using tr r e by (simp_all add: submit_state_def hs)
  show ?thesis
    unfolding log using split lastc oks creates err suc nav sav
      parseApiError_nonempty handleSubmit_draft_unchanged by simp
qed

text \<open>
  The example draft against a backend that throws at the third call, the first option of
  the first question.
\<close>

theorem failure_semantics_witness:
  "(OptionCreate \<lparr>op_texto = js ''yes'', op_ativo = True, op_questionId = 101\<rparr>,
      Inl (JsError (js ''boom''))) \<in> set (submit_log (failing_backend 2) example_toISO example_draft) \<and>
   length (submit_log (failing_backend 2) example_toISO example_draft) = 3 \<and>
   list_all (\<lambda>x. is_create (fst x)) (submit_log (failing_backend 2) example_toISO example_draft) \<and>
   error (submit_state (failing_backend 2) example_toISO example_draft) = Some (js ''boom'') \<and>
   success (submit_state (failing_backend 2) example_toISO example_draft) = None \<and>
   draft (submit_state (failing_backend 2) example_toISO example_draft) = draft example_draft"
proof -
  let ?c = "OptionCreate \<lparr>op_texto = js ''yes'', op_ativo = True, op_questionId = 101\<rparr>"
  let ?e = "JsError (js ''boom'')"
  have m: "(?c, Inl ?e) \<in> set (submit_log (failing_backend 2) example_toISO example_draft)"
    by code_simp
  have l: "length (submit_log (failing_backend 2) example_toISO example_draft) = 3" by code_simp
  have p: "parseApiError ?e = js ''boom''" by code_simp
  note t = failure_semantics[OF m]
  show ?thesis using m l t p by (simp add: list_all_iff)
qed

end
